theory Spec2Isabelle
  imports Complex_Main "HOL-Library.Word"
begin

section \<open>Sequence features of bpp-seq-omics (Bpp/Seq/Feature/SequenceFeature.h)\<close>

text \<open>
  The header declares three classes: \<^verbatim>\<open>SeqRange\<close> (a coordinate range with a strand),
  \<^verbatim>\<open>BasicSequenceFeature\<close> (the one implementation of the \<^verbatim>\<open>SequenceFeature\<close> interface) and
  \<^verbatim>\<open>SequenceFeatureSet\<close> (a vector of owned feature pointers).

  Naming: a C++ data member \<^verbatim>\<open>name_\<close> is the record field \<open>name'\<close> (an identifier
  cannot end with an underscore here). \<^verbatim>\<open>size_t\<close> is a 64-bit word, \<^verbatim>\<open>char\<close> is \<open>char\<close>,
  \<^verbatim>\<open>std::string\<close> is \<open>string\<close>, \<^verbatim>\<open>std::map<std::string, std::string>\<close> is a map
  \<open>string \<rightharpoonup> string\<close>. The score (a \<^verbatim>\<open>double\<close>) is only stored and copied; it is a \<open>real\<close>.
\<close>

subsection \<open>Range (bpp-core, Bpp/Numeric/Range.h)\<close>

record Range =
  begin' :: "64 word"
  end' :: "64 word"

text \<open>
  Modelled from the spec: the constructor \<^verbatim>\<open>Range<size_t>(a, b)\<close> of bpp-core, whose header
  is not part of this repository. The spec describes a half-open interval \<open>[a, b)\<close> whose
  bounds are not validated (the caller guarantees \<open>start \<le> end\<close>).
\<close>

definition Range_init :: "64 word \<Rightarrow> 64 word \<Rightarrow> Range" where
  "Range_init a b = \<lparr>begin' = a, end' = b\<rparr>"

text \<open>The coordinates of a half-open interval: \<open>begin\<close> included, \<open>end\<close> excluded.\<close>

definition coordinates :: "'a Range_scheme \<Rightarrow> 64 word set" where
  "coordinates r = {x. begin' r \<le> x \<and> x < end' r}"

text \<open>
  Modelled from the spec: \<^verbatim>\<open>Range<size_t>::overlap\<close> of bpp-core, "true iff the two
  half-open intervals share at least one coordinate; strand is irrelevant to this test".
  The executable form compares the larger lower bound with the smaller upper bound;
  \<open>Range_overlap_iff\<close> below shows that it says what the spec's words say.
\<close>

definition Range_overlap :: "'a Range_scheme \<Rightarrow> 'b Range_scheme \<Rightarrow> bool" where
  "Range_overlap this r \<longleftrightarrow> max (begin' this) (begin' r) < min (end' this) (end' r)"

text \<open>
  Modelled from the spec: \<^verbatim>\<open>Range<size_t>::contains\<close> of bpp-core, "true iff
  \<^verbatim>\<open>other.start >= this.start\<close> and \<^verbatim>\<open>other.end <= this.end\<close>".
\<close>

definition Range_contains :: "'a Range_scheme \<Rightarrow> 'b Range_scheme \<Rightarrow> bool" where
  "Range_contains this r \<longleftrightarrow> begin' r \<ge> begin' this \<and> end' r \<le> end' this"

subsection \<open>SeqRange\<close>

record SeqRange = Range +
  strand' :: char

text \<open>\<^verbatim>\<open>SeqRange(size_t a, size_t b, char strand = '.')\<close>\<close>

definition SeqRange_init :: "64 word \<Rightarrow> 64 word \<Rightarrow> char \<Rightarrow> SeqRange" where
  "SeqRange_init a b strand =
     (let base = Range_init a b;
          this = \<lparr>begin' = begin' base, end' = end' base, strand' = strand\<rparr>
      in if strand \<noteq> CHR ''+'' \<and> strand \<noteq> CHR ''-'' \<and> strand \<noteq> CHR ''?'' \<and> strand \<noteq> CHR ''.''
         then this\<lparr>strand' := CHR ''.''\<rparr>
         else this)"

text \<open>\<^verbatim>\<open>SeqRange(const Range<size_t> rng, char strand = '.')\<close>\<close>

definition SeqRange_of_Range :: "Range \<Rightarrow> char \<Rightarrow> SeqRange" where
  "SeqRange_of_Range rng strand =
     (let this = \<lparr>begin' = begin' rng, end' = end' rng, strand' = strand\<rparr>
      in if strand \<noteq> CHR ''+'' \<and> strand \<noteq> CHR ''-'' \<and> strand \<noteq> CHR ''?'' \<and> strand \<noteq> CHR ''.''
         then this\<lparr>strand' := CHR ''.''\<rparr>
         else this)"

definition getStrand :: "SeqRange \<Rightarrow> char" where
  "getStrand this = strand' this"

definition isNegativeStrand :: "SeqRange \<Rightarrow> bool" where
  "isNegativeStrand this \<longleftrightarrow> strand' this = CHR ''-''"

definition isStranded :: "SeqRange \<Rightarrow> bool" where
  "isStranded this \<longleftrightarrow> strand' this = CHR ''+'' \<or> strand' this = CHR ''-''"

definition invert :: "SeqRange \<Rightarrow> SeqRange" where
  "invert this =
     (if isStranded this
      then (if isNegativeStrand this
            then this\<lparr>strand' := CHR ''+''\<rparr>
            else this\<lparr>strand' := CHR ''-''\<rparr>)
      else this)"

text \<open>The four strand symbols the constructors let through.\<close>

definition recognized_strand :: "char \<Rightarrow> bool" where
  "recognized_strand c \<longleftrightarrow> c = CHR ''+'' \<or> c = CHR ''-'' \<or> c = CHR ''.'' \<or> c = CHR ''?''"

subsection \<open>BasicSequenceFeature\<close>

record BasicSequenceFeature =
  id' :: string
  sequenceId' :: string
  source' :: string
  type' :: string
  range' :: SeqRange
  score' :: real
  attributes' :: "string \<rightharpoonup> string"

text \<open>The default constructor and the constructor with eight arguments.\<close>

definition BasicSequenceFeature_default :: BasicSequenceFeature where
  "BasicSequenceFeature_default =
     \<lparr>id' = '''', sequenceId' = '''', source' = '''', type' = '''',
      range' = SeqRange_init 0 0 CHR ''.'', score' = - 1, attributes' = Map.empty\<rparr>"

definition BasicSequenceFeature_init ::
  "string \<Rightarrow> string \<Rightarrow> string \<Rightarrow> string \<Rightarrow> 64 word \<Rightarrow> 64 word \<Rightarrow> char \<Rightarrow> real
     \<Rightarrow> BasicSequenceFeature" where
  "BasicSequenceFeature_init ident seqId source type a b strand score =
     \<lparr>id' = ident, sequenceId' = seqId, source' = source, type' = type,
      range' = SeqRange_init a b strand, score' = score, attributes' = Map.empty\<rparr>"

text \<open>
  \<^verbatim>\<open>clone()\<close> returns \<^verbatim>\<open>new BasicSequenceFeature(*this)\<close>: the implicit copy constructor copies
  every member, the attribute map included. As a value, the copy is the object itself;
  the allocation of the copy is \<open>new_feature\<close> in the memory model below.
\<close>

definition getId :: "BasicSequenceFeature \<Rightarrow> string" where
  "getId this = id' this"

definition setId :: "string \<Rightarrow> BasicSequenceFeature \<Rightarrow> BasicSequenceFeature" where
  "setId ident this = this\<lparr>id' := ident\<rparr>"

definition getSequenceId :: "BasicSequenceFeature \<Rightarrow> string" where
  "getSequenceId this = sequenceId' this"

definition setSequenceId :: "string \<Rightarrow> BasicSequenceFeature \<Rightarrow> BasicSequenceFeature" where
  "setSequenceId sid this = this\<lparr>sequenceId' := sid\<rparr>"

definition getSource :: "BasicSequenceFeature \<Rightarrow> string" where
  "getSource this = source' this"

definition setSource :: "string \<Rightarrow> BasicSequenceFeature \<Rightarrow> BasicSequenceFeature" where
  "setSource source this = this\<lparr>source' := source\<rparr>"

definition getType :: "BasicSequenceFeature \<Rightarrow> string" where
  "getType this = type' this"

definition setType :: "string \<Rightarrow> BasicSequenceFeature \<Rightarrow> BasicSequenceFeature" where
  "setType type this = this\<lparr>type' := type\<rparr>"

definition getStart :: "BasicSequenceFeature \<Rightarrow> 64 word" where
  "getStart this = begin' (range' this)"

definition getEnd :: "BasicSequenceFeature \<Rightarrow> 64 word" where
  "getEnd this = end' (range' this)"

text \<open>\<^verbatim>\<open>size()\<close>: the difference of two \<^verbatim>\<open>size_t\<close>, which wraps around.\<close>

definition feature_size :: "BasicSequenceFeature \<Rightarrow> 64 word" where
  "feature_size this = getEnd this - getStart this"

definition isEmpty :: "BasicSequenceFeature \<Rightarrow> bool" where
  "isEmpty this \<longleftrightarrow> feature_size this = 0"

definition isPoint :: "BasicSequenceFeature \<Rightarrow> bool" where
  "isPoint this \<longleftrightarrow> feature_size this = 1"

definition feature_isStranded :: "BasicSequenceFeature \<Rightarrow> bool" where
  "feature_isStranded this \<longleftrightarrow> isStranded (range' this)"

definition feature_isNegativeStrand :: "BasicSequenceFeature \<Rightarrow> bool" where
  "feature_isNegativeStrand this \<longleftrightarrow> isNegativeStrand (range' this)"

definition feature_invert :: "BasicSequenceFeature \<Rightarrow> BasicSequenceFeature" where
  "feature_invert this = this\<lparr>range' := invert (range' this)\<rparr>"

definition getScore :: "BasicSequenceFeature \<Rightarrow> real" where
  "getScore this = score' this"

definition setScore :: "real \<Rightarrow> BasicSequenceFeature \<Rightarrow> BasicSequenceFeature" where
  "setScore score this = this\<lparr>score' := score\<rparr>"

text \<open>\<^verbatim>\<open>getRange()\<close> returns \<^verbatim>\<open>SeqRange(range_)\<close>, a copy made by the copy constructor.\<close>

definition getRange :: "BasicSequenceFeature \<Rightarrow> SeqRange" where
  "getRange this = range' this"

text \<open>
  The read-only \<^verbatim>\<open>getAttribute\<close> returns a reference, either to the value stored in the
  map or to the static string \<^verbatim>\<open>SequenceFeature::NO_ATTRIBUTE_SET\<close>. The two are kept apart
  here. The text of the static string is given in a source file that is not part of the
  header; \<open>attribute_text\<close> takes it as a parameter.
\<close>

datatype attribute_ref = Stored string | NO_ATTRIBUTE_SET

definition getAttribute :: "BasicSequenceFeature \<Rightarrow> string \<Rightarrow> attribute_ref" where
  "getAttribute this attribute =
     (case attributes' this attribute of
        Some second \<Rightarrow> Stored second
      | None \<Rightarrow> NO_ATTRIBUTE_SET)"

fun attribute_text :: "string \<Rightarrow> attribute_ref \<Rightarrow> string" where
  "attribute_text no_attribute_set (Stored v) = v"
| "attribute_text no_attribute_set NO_ATTRIBUTE_SET = no_attribute_set"

text \<open>
  The mutable \<^verbatim>\<open>getAttribute\<close> returns \<^verbatim>\<open>attributes_[attribute]\<close>: \<^verbatim>\<open>operator[]\<close> of
  \<^verbatim>\<open>std::map\<close> inserts an empty string under a key that is absent. The result is the
  text now referred to and the feature after the call.
\<close>

definition getAttribute_mutable ::
  "BasicSequenceFeature \<Rightarrow> string \<Rightarrow> string \<times> BasicSequenceFeature" where
  "getAttribute_mutable this attribute =
     (case attributes' this attribute of
        Some v \<Rightarrow> (v, this)
      | None \<Rightarrow> ('''', this\<lparr>attributes' := (attributes' this)(attribute \<mapsto> '''')\<rparr>))"

definition setAttribute ::
  "string \<Rightarrow> string \<Rightarrow> BasicSequenceFeature \<Rightarrow> BasicSequenceFeature" where
  "setAttribute attribute v this = this\<lparr>attributes' := (attributes' this)(attribute \<mapsto> v)\<rparr>"

definition getAttributeList :: "BasicSequenceFeature \<Rightarrow> string set" where
  "getAttributeList this = dom (attributes' this)"

definition removeAttribute :: "string \<Rightarrow> BasicSequenceFeature \<Rightarrow> BasicSequenceFeature" where
  "removeAttribute attribute this =
     (if attributes' this attribute \<noteq> None
      then this\<lparr>attributes' := (attributes' this)(attribute := None)\<rparr>
      else this)"

definition overlap_Feature :: "BasicSequenceFeature \<Rightarrow> BasicSequenceFeature \<Rightarrow> bool" where
  "overlap_Feature this feat =
     (if getSequenceId feat = sequenceId' this
      then Range_overlap (range' this) (getRange feat)
      else False)"

definition overlap_SeqRange :: "BasicSequenceFeature \<Rightarrow> SeqRange \<Rightarrow> bool" where
  "overlap_SeqRange this rng = Range_overlap (range' this) rng"

definition feature_includes :: "BasicSequenceFeature \<Rightarrow> SeqRange \<Rightarrow> bool" where
  "feature_includes this rng = Range_contains (range' this) rng"

definition isIncludedIn :: "BasicSequenceFeature \<Rightarrow> SeqRange \<Rightarrow> bool" where
  "isIncludedIn this rng = Range_contains rng (range' this)"

section \<open>Objects in memory\<close>

text \<open>
  A \<^verbatim>\<open>SequenceFeatureSet\<close> holds \<^verbatim>\<open>std::vector<SequenceFeature*> features_\<close>: pointers to
  features that \<^verbatim>\<open>clone()\<close> allocated with \<^verbatim>\<open>new\<close> and that \<^verbatim>\<open>clear()\<close> releases with
  \<^verbatim>\<open>delete\<close>. Which object a pointer refers to matters for copies, so objects live in an
  explicit memory. An address is an index: \<open>feature_cells\<close> holds the feature objects
  (\<open>None\<close> once deleted, and a new object always takes the next index), \<open>set_cells\<close> holds
  for every \<^verbatim>\<open>SequenceFeatureSet\<close> object its vector \<^verbatim>\<open>features_\<close>. An operation that
  dereferences an address with no live object behind it has no defined behaviour in
  C++; here it returns \<open>None\<close>.
\<close>

type_synonym addr = nat

record memory =
  feature_cells :: "BasicSequenceFeature option list"
  set_cells :: "addr list list"

text \<open>\<^verbatim>\<open>*it\<close> for a feature pointer.\<close>

definition feature_at :: "memory \<Rightarrow> addr \<Rightarrow> BasicSequenceFeature option" where
  "feature_at m p = (if p < length (feature_cells m) then feature_cells m ! p else None)"

text \<open>\<^verbatim>\<open>new BasicSequenceFeature(f)\<close>\<close>

definition new_feature :: "BasicSequenceFeature \<Rightarrow> memory \<Rightarrow> addr \<times> memory" where
  "new_feature f m =
     (length (feature_cells m), m\<lparr>feature_cells := feature_cells m @ [Some f]\<rparr>)"

text \<open>\<^verbatim>\<open>clone()\<close> called through a pointer: \<^verbatim>\<open>new BasicSequenceFeature(*this)\<close>.\<close>

definition clone :: "addr \<Rightarrow> memory \<Rightarrow> (addr \<times> memory) option" where
  "clone this m =
     (case feature_at m this of
        None \<Rightarrow> None
      | Some f \<Rightarrow> Some (new_feature f m))"

text \<open>\<^verbatim>\<open>delete p\<close>\<close>

definition delete_feature :: "addr \<Rightarrow> memory \<Rightarrow> memory option" where
  "delete_feature p m =
     (case feature_at m p of
        None \<Rightarrow> None
      | Some f \<Rightarrow> Some (m\<lparr>feature_cells := (feature_cells m)[p := None]\<rparr>))"

text \<open>
  A call of a non-const member function (a setter, \<^verbatim>\<open>setAttribute\<close>, \<^verbatim>\<open>removeAttribute\<close>,
  \<^verbatim>\<open>invert\<close>, the mutable \<^verbatim>\<open>getAttribute\<close>) on the object at an address; \<open>g\<close> is the
  function of the previous section that the call applies.
\<close>

definition modify_feature ::
  "addr \<Rightarrow> (BasicSequenceFeature \<Rightarrow> BasicSequenceFeature) \<Rightarrow> memory \<Rightarrow> memory option" where
  "modify_feature p g m =
     (case feature_at m p of
        None \<Rightarrow> None
      | Some f \<Rightarrow> Some (m\<lparr>feature_cells := (feature_cells m)[p := Some (g f)]\<rparr>))"

subsection \<open>SequenceFeatureSet\<close>

text \<open>The member \<^verbatim>\<open>features_\<close> of the set object at an address.\<close>

definition features' :: "memory \<Rightarrow> addr \<Rightarrow> addr list option" where
  "features' m this = (if this < length (set_cells m) then Some (set_cells m ! this) else None)"

text \<open>\<^verbatim>\<open>SequenceFeatureSet() : features_() {}\<close>, for a new set object.\<close>

definition SequenceFeatureSet_init :: "memory \<Rightarrow> addr \<times> memory" where
  "SequenceFeatureSet_init m = (length (set_cells m), m\<lparr>set_cells := set_cells m @ [[]]\<rparr>)"

text \<open>\<^verbatim>\<open>features_.push_back(p)\<close>\<close>

definition push_back :: "addr \<Rightarrow> addr \<Rightarrow> memory \<Rightarrow> memory option" where
  "push_back this p m =
     (if this < length (set_cells m)
      then Some (m\<lparr>set_cells := (set_cells m)[this := set_cells m ! this @ [p]]\<rparr>)
      else None)"

text \<open>\<^verbatim>\<open>addFeature(feature)\<close>: \<^verbatim>\<open>features_.push_back(feature.clone())\<close>.\<close>

definition addFeature :: "addr \<Rightarrow> addr \<Rightarrow> memory \<Rightarrow> memory option" where
  "addFeature this feature m =
     (case clone feature m of
        None \<Rightarrow> None
      | Some (q, m') \<Rightarrow> push_back this q m')"

text \<open>\<^verbatim>\<open>clear()\<close>: the loop deletes every element, then the vector is emptied.\<close>

fun delete_all :: "addr list \<Rightarrow> memory \<Rightarrow> memory option" where
  "delete_all [] m = Some m"
| "delete_all (it # its) m =
     (case delete_feature it m of
        None \<Rightarrow> None
      | Some m' \<Rightarrow> delete_all its m')"

definition clear :: "addr \<Rightarrow> memory \<Rightarrow> memory option" where
  "clear this m =
     (case features' m this of
        None \<Rightarrow> None
      | Some its \<Rightarrow>
          (case delete_all its m of
             None \<Rightarrow> None
           | Some m' \<Rightarrow> Some (m'\<lparr>set_cells := (set_cells m')[this := []]\<rparr>)))"

text \<open>
  The loop of the copy constructor and of \<^verbatim>\<open>operator=\<close>:
  \<^verbatim>\<open>features_.push_back((**it).clone())\<close> for every \<^verbatim>\<open>it\<close> of \<^verbatim>\<open>sfs.features_\<close>. The
  statement is the body of \<^verbatim>\<open>addFeature\<close>.
\<close>

fun clone_all :: "addr \<Rightarrow> addr list \<Rightarrow> memory \<Rightarrow> memory option" where
  "clone_all this [] m = Some m"
| "clone_all this (it # its) m =
     (case addFeature this it m of
        None \<Rightarrow> None
      | Some m' \<Rightarrow> clone_all this its m')"

text \<open>\<^verbatim>\<open>SequenceFeatureSet(const SequenceFeatureSet& sfs)\<close>, for a new set object.\<close>

definition SequenceFeatureSet_copy :: "addr \<Rightarrow> memory \<Rightarrow> (addr \<times> memory) option" where
  "SequenceFeatureSet_copy sfs m =
     (case SequenceFeatureSet_init m of
        (this, m1) \<Rightarrow>
          (case features' m1 sfs of
             None \<Rightarrow> None
           | Some its \<Rightarrow>
               (case clone_all this its m1 of
                  None \<Rightarrow> None
                | Some m2 \<Rightarrow> Some (this, m2))))"

text \<open>
  \<^verbatim>\<open>operator=(const SequenceFeatureSet& sfs)\<close>: \<^verbatim>\<open>clear()\<close> runs first, and the loop reads
  \<^verbatim>\<open>sfs.features_\<close> after it.
\<close>

definition assign :: "addr \<Rightarrow> addr \<Rightarrow> memory \<Rightarrow> memory option" where
  "assign this sfs m =
     (case clear this m of
        None \<Rightarrow> None
      | Some m1 \<Rightarrow>
          (case features' m1 sfs of
             None \<Rightarrow> None
           | Some its \<Rightarrow> clone_all this its m1))"

text \<open>The objects behind a vector of pointers, in the vector's order.\<close>

fun deref_all :: "memory \<Rightarrow> addr list \<Rightarrow> BasicSequenceFeature list option" where
  "deref_all m [] = Some []"
| "deref_all m (p # ps) =
     (case feature_at m p of
        None \<Rightarrow> None
      | Some f \<Rightarrow> map_option ((#) f) (deref_all m ps))"

text \<open>
  What a reader sees who calls \<^verbatim>\<open>getFeature(i)\<close> for every \<open>i\<close> below
  \<^verbatim>\<open>getNumberOfFeatures()\<close>: the elements of the set, in index order.
\<close>

definition contents :: "memory \<Rightarrow> addr \<Rightarrow> BasicSequenceFeature list option" where
  "contents m this =
     (case features' m this of
        None \<Rightarrow> None
      | Some its \<Rightarrow> deref_all m its)"

definition getFeature :: "memory \<Rightarrow> addr \<Rightarrow> nat \<Rightarrow> BasicSequenceFeature option" where
  "getFeature m this i =
     (case features' m this of
        None \<Rightarrow> None
      | Some its \<Rightarrow> if i < length its then feature_at m (its ! i) else None)"

definition getNumberOfFeatures :: "memory \<Rightarrow> addr \<Rightarrow> nat option" where
  "getNumberOfFeatures m this = map_option length (features' m this)"

definition set_isEmpty :: "memory \<Rightarrow> addr \<Rightarrow> bool option" where
  "set_isEmpty m this = map_option (\<lambda>its. length its = 0) (features' m this)"

definition getSequences :: "memory \<Rightarrow> addr \<Rightarrow> string set option" where
  "getSequences m this = map_option (\<lambda>fs. set (map getSequenceId fs)) (contents m this)"

definition getTypes :: "memory \<Rightarrow> addr \<Rightarrow> string set option" where
  "getTypes m this = map_option (\<lambda>fs. set (map getType fs)) (contents m this)"

text \<open>
  \<^verbatim>\<open>fillRangeCollection\<close> and \<^verbatim>\<open>fillRangeCollectionForSequence\<close> call \<^verbatim>\<open>coords.addRange\<close>
  on a \<^verbatim>\<open>RangeCollection<size_t>\<close>, an abstract class of bpp-core: \<open>addRange\<close> is a
  parameter, and \<open>coords\<close> any value it works on.
\<close>

fun fillRangeCollection_loop ::
  "(SeqRange \<Rightarrow> 'c \<Rightarrow> 'c) \<Rightarrow> memory \<Rightarrow> addr list \<Rightarrow> 'c \<Rightarrow> 'c option" where
  "fillRangeCollection_loop addRange m [] coords = Some coords"
| "fillRangeCollection_loop addRange m (it # its) coords =
     (case feature_at m it of
        None \<Rightarrow> None
      | Some f \<Rightarrow> fillRangeCollection_loop addRange m its (addRange (getRange f) coords))"

definition fillRangeCollection ::
  "(SeqRange \<Rightarrow> 'c \<Rightarrow> 'c) \<Rightarrow> memory \<Rightarrow> addr \<Rightarrow> 'c \<Rightarrow> 'c option" where
  "fillRangeCollection addRange m this coords =
     (case features' m this of
        None \<Rightarrow> None
      | Some its \<Rightarrow> fillRangeCollection_loop addRange m its coords)"

fun fillRangeCollectionForSequence_loop ::
  "(SeqRange \<Rightarrow> 'c \<Rightarrow> 'c) \<Rightarrow> memory \<Rightarrow> string \<Rightarrow> addr list \<Rightarrow> 'c \<Rightarrow> 'c option" where
  "fillRangeCollectionForSequence_loop addRange m seqId [] coords = Some coords"
| "fillRangeCollectionForSequence_loop addRange m seqId (it # its) coords =
     (case feature_at m it of
        None \<Rightarrow> None
      | Some f \<Rightarrow>
          if getSequenceId f = seqId
          then fillRangeCollectionForSequence_loop addRange m seqId its
                 (addRange (getRange f) coords)
          else fillRangeCollectionForSequence_loop addRange m seqId its coords)"

definition fillRangeCollectionForSequence ::
  "(SeqRange \<Rightarrow> 'c \<Rightarrow> 'c) \<Rightarrow> memory \<Rightarrow> string \<Rightarrow> addr \<Rightarrow> 'c \<Rightarrow> 'c option" where
  "fillRangeCollectionForSequence addRange m seqId this coords =
     (case features' m this of
        None \<Rightarrow> None
      | Some its \<Rightarrow> fillRangeCollectionForSequence_loop addRange m seqId its coords)"

text \<open>
  A collection that keeps the ranges in the order of the \<^verbatim>\<open>addRange\<close> calls: the
  record of what the two functions emit.
\<close>

definition emitted :: "SeqRange \<Rightarrow> SeqRange list \<Rightarrow> SeqRange list" where
  "emitted r coords = coords @ [r]"

text \<open>
  The five \<^verbatim>\<open>getSubsetFor...\<close> functions are the same text but for the test of the
  \<^verbatim>\<open>if\<close>: a new empty set, a loop over \<^verbatim>\<open>features_\<close>, \<^verbatim>\<open>subset->addFeature(**it)\<close> where the
  test holds, and the new set returned. \<open>getSubset\<close> is that text, the test is \<open>keep\<close>
  and the new set \<open>sub\<close>.
\<close>

fun getSubset_loop ::
  "(BasicSequenceFeature \<Rightarrow> bool) \<Rightarrow> addr \<Rightarrow> addr list \<Rightarrow> memory \<Rightarrow> memory option" where
  "getSubset_loop keep sub [] m = Some m"
| "getSubset_loop keep sub (it # its) m =
     (case feature_at m it of
        None \<Rightarrow> None
      | Some f \<Rightarrow>
          if keep f
          then (case addFeature sub it m of
                  None \<Rightarrow> None
                | Some m' \<Rightarrow> getSubset_loop keep sub its m')
          else getSubset_loop keep sub its m)"

definition getSubset ::
  "(BasicSequenceFeature \<Rightarrow> bool) \<Rightarrow> addr \<Rightarrow> memory \<Rightarrow> (addr \<times> memory) option" where
  "getSubset keep this m =
     (case SequenceFeatureSet_init m of
        (sub, m1) \<Rightarrow>
          (case features' m1 this of
             None \<Rightarrow> None
           | Some its \<Rightarrow>
               (case getSubset_loop keep sub its m1 of
                  None \<Rightarrow> None
                | Some m2 \<Rightarrow> Some (sub, m2))))"

definition getSubsetForType :: "string \<Rightarrow> addr \<Rightarrow> memory \<Rightarrow> (addr \<times> memory) option" where
  "getSubsetForType type = getSubset (\<lambda>f. getType f = type)"

text \<open>\<^verbatim>\<open>std::find(types.begin(), types.end(), x) != types.end()\<close> is membership.\<close>

definition getSubsetForTypes ::
  "string list \<Rightarrow> addr \<Rightarrow> memory \<Rightarrow> (addr \<times> memory) option" where
  "getSubsetForTypes types = getSubset (\<lambda>f. getType f \<in> set types)"

definition getSubsetForSequence ::
  "string \<Rightarrow> addr \<Rightarrow> memory \<Rightarrow> (addr \<times> memory) option" where
  "getSubsetForSequence ident = getSubset (\<lambda>f. getSequenceId f = ident)"

definition getSubsetForSequences ::
  "string list \<Rightarrow> addr \<Rightarrow> memory \<Rightarrow> (addr \<times> memory) option" where
  "getSubsetForSequences ids = getSubset (\<lambda>f. getSequenceId f \<in> set ids)"

text \<open>The flag \<^verbatim>\<open>complete\<close> is \<open>whole\<close> here.\<close>

definition getSubsetForRange ::
  "SeqRange \<Rightarrow> bool \<Rightarrow> addr \<Rightarrow> memory \<Rightarrow> (addr \<times> memory) option" where
  "getSubsetForRange rng whole =
     getSubset (\<lambda>f. if whole then isIncludedIn f rng else overlap_SeqRange f rng)"

text \<open>
  What a client can do later that holds the set \<open>this\<close> and pointers to feature objects:
  the three public operations that change a \<^verbatim>\<open>SequenceFeatureSet\<close> (\<^verbatim>\<open>addFeature\<close>,
  \<^verbatim>\<open>clear\<close>, \<^verbatim>\<open>operator=\<close>), and a call of a non-const member function on a feature
  object; and a run of such steps.
\<close>

datatype mutation =
    AddFeature addr
  | Clear
  | Assign addr
  | Modify addr "BasicSequenceFeature \<Rightarrow> BasicSequenceFeature"

fun mutate :: "addr \<Rightarrow> mutation \<Rightarrow> memory \<Rightarrow> memory option" where
  "mutate this (AddFeature feature) m = addFeature this feature m"
| "mutate this Clear m = clear this m"
| "mutate this (Assign sfs) m = assign this sfs m"
| "mutate this (Modify p g) m = modify_feature p g m"

fun mutate_all :: "addr \<Rightarrow> mutation list \<Rightarrow> memory \<Rightarrow> memory option" where
  "mutate_all this [] m = Some m"
| "mutate_all this (x # xs) m =
     (case mutate this x m of
        None \<Rightarrow> None
      | Some m' \<Rightarrow> mutate_all this xs m')"

text \<open>The step is a member call on the feature object at \<open>p\<close>.\<close>

fun modifies :: "mutation \<Rightarrow> addr \<Rightarrow> bool" where
  "modifies (Modify q g) p \<longleftrightarrow> q = p"
| "modifies (AddFeature feature) p \<longleftrightarrow> False"
| "modifies Clear p \<longleftrightarrow> False"
| "modifies (Assign sfs) p \<longleftrightarrow> False"

text \<open>
  The set \<open>T\<close> is apart from the set \<open>S\<close>: another object, with the vector \<open>pt\<close> of
  pointers to live features with the values \<open>ys\<close>, none of them in the vector of \<open>S\<close>.
\<close>

definition apart :: "memory \<Rightarrow> addr \<Rightarrow> addr \<Rightarrow> addr list \<Rightarrow> BasicSequenceFeature list \<Rightarrow> bool" where
  "apart m S T pt ys \<longleftrightarrow>
     T \<noteq> S \<and> features' m T = Some pt \<and> map (feature_at m) pt = map Some ys
     \<and> (\<exists>ps. features' m S = Some ps \<and> set ps \<inter> set pt = {})"

text \<open>
  A selection \<open>ys\<close> of the elements of \<open>xs\<close> that \<open>keep\<close> holds for, in the order of
  \<open>xs\<close>: the kept indices, in increasing order, give \<open>ys\<close>.
\<close>

definition kept_in_order :: "('a \<Rightarrow> bool) \<Rightarrow> 'a list \<Rightarrow> 'a list \<Rightarrow> bool" where
  "kept_in_order keep xs ys \<longleftrightarrow>
     (\<exists>idx. sorted_wrt (<) idx \<and> set idx = {i. i < length xs \<and> keep (xs ! i)}
        \<and> ys = map ((!) xs) idx)"

text \<open>
  The memory after copies of the features \<open>fs\<close> were allocated, in this order, and
  their addresses pushed to the back of the vector of the set \<open>s\<close>. The loops below
  are shown to end in such a memory.
\<close>

definition appended :: "memory \<Rightarrow> BasicSequenceFeature list \<Rightarrow> addr \<Rightarrow> memory" where
  "appended m fs s =
     \<lparr>feature_cells = feature_cells m @ map Some fs,
      set_cells = (set_cells m)[s := set_cells m ! s
         @ [length (feature_cells m) ..< length (feature_cells m) + length fs]]\<rparr>"

text \<open>
  The elements of the set that a \<^verbatim>\<open>getSubsetFor...\<close> call returned, read in the memory
  it left (no element where the call or the read is undefined).
\<close>

definition elements :: "(addr \<times> memory) option \<Rightarrow> BasicSequenceFeature list" where
  "elements res =
     (case res of
        None \<Rightarrow> []
      | Some (sub, m') \<Rightarrow> (case contents m' sub of None \<Rightarrow> [] | Some ys \<Rightarrow> ys))"

text \<open>
  A memory for examples: one set, at address 0, of three features on two sequences,
  and a fourth feature object, at address 3, that is in no set.
\<close>

definition gene_10_20 :: BasicSequenceFeature where
  "gene_10_20 = BasicSequenceFeature_init ''g1'' ''chr1'' ''test'' ''gene'' 10 20 CHR ''+'' (- 1)"

definition exon_22_28 :: BasicSequenceFeature where
  "exon_22_28 = BasicSequenceFeature_init ''e1'' ''chr1'' ''test'' ''exon'' 22 28 CHR ''+'' (- 1)"

definition gene_15_25 :: BasicSequenceFeature where
  "gene_15_25 = BasicSequenceFeature_init ''g2'' ''chr2'' ''test'' ''gene'' 15 25 CHR ''-'' (- 1)"

definition site_5_6 :: BasicSequenceFeature where
  "site_5_6 = BasicSequenceFeature_init ''s1'' ''chr1'' ''test'' ''site'' 5 6 CHR ''?'' (- 1)"

definition example_memory :: memory where
  "example_memory =
     \<lparr>feature_cells = [Some gene_10_20, Some exon_22_28, Some gene_15_25, Some site_5_6],
      set_cells = [[0, 1, 2]]\<rparr>"

section \<open>Properties of ranges and features\<close>

lemma Range_overlap_iff:
  "Range_overlap a b \<longleftrightarrow> coordinates a \<inter> coordinates b \<noteq> {}"
proof
  assume "Range_overlap a b"
  then have "max (begin' a) (begin' b) \<in> coordinates a \<inter> coordinates b"
    by (simp add: Range_overlap_def coordinates_def)
  then show "coordinates a \<inter> coordinates b \<noteq> {}"
    by blast
next
  assume "coordinates a \<inter> coordinates b \<noteq> {}"
  then obtain x where "begin' a \<le> x" "x < end' a" "begin' b \<le> x" "x < end' b"
    by (auto simp: coordinates_def)
  then have "max (begin' a) (begin' b) \<le> x" and "x < min (end' a) (end' b)"
    by simp_all
  then show "Range_overlap a b"
    unfolding Range_overlap_def by (rule le_less_trans)
qed

subsection \<open>Strand\<close>

text \<open>
  C5. Whatever strand character a range or a feature is constructed with, the stored
  strand is that character if it is one of \<open>+\<close>, \<open>-\<close>, \<open>.\<close>, \<open>?\<close>, and \<open>.\<close>
  otherwise. The constructors are total functions, and the stored strand is one of the
  four symbols after construction and after any number of calls of \<^verbatim>\<open>invert()\<close>, on the
  range or on the feature.
\<close>

theorem strand_normalized_at_construction:
  "getStrand (SeqRange_init a b c) = (if recognized_strand c then c else CHR ''.'')
   \<and> getStrand (SeqRange_of_Range r c) = (if recognized_strand c then c else CHR ''.'')
   \<and> getStrand (getRange (BasicSequenceFeature_init i s src t a b c sc))
       = (if recognized_strand c then c else CHR ''.'')
   \<and> recognized_strand (getStrand (SeqRange_init a b c))
   \<and> recognized_strand (getStrand (SeqRange_of_Range r c))
   \<and> recognized_strand (getStrand (getRange (BasicSequenceFeature_init i s src t a b c sc)))
   \<and> recognized_strand (getStrand (getRange BasicSequenceFeature_default))
   \<and> recognized_strand (getStrand ((invert ^^ n) (SeqRange_init a b c)))
   \<and> recognized_strand (getStrand ((invert ^^ n) (SeqRange_of_Range r c)))
   \<and> recognized_strand (getStrand (getRange
         ((feature_invert ^^ n) (BasicSequenceFeature_init i s src t a b c sc))))"
proof -
  have fpow: "range' ((feature_invert ^^ k) x) = (invert ^^ k) (range' x)" for k x
    by (induction k) (simp_all add: feature_invert_def)
  have inv: "recognized_strand (strand' x) \<Longrightarrow> recognized_strand (strand' (invert x))" for x
    by (auto simp: invert_def recognized_strand_def isStranded_def isNegativeStrand_def)
  have pow: "recognized_strand (strand' x) \<Longrightarrow> recognized_strand (strand' ((invert ^^ k) x))"
    for x k
    by (induction k) (simp_all add: inv)
  have c1: "strand' (SeqRange_init a b c) = (if recognized_strand c then c else CHR ''.'')"
    by (simp add: SeqRange_init_def Range_init_def recognized_strand_def Let_def)
  have c2: "strand' (SeqRange_of_Range r c) = (if recognized_strand c then c else CHR ''.'')"
    by (simp add: SeqRange_of_Range_def recognized_strand_def Let_def)
  have r1: "recognized_strand (strand' (SeqRange_init a b c))"
    unfolding c1 by (simp add: recognized_strand_def)
  have r2: "recognized_strand (strand' (SeqRange_of_Range r c))"
    unfolding c2 by (simp add: recognized_strand_def)
  have r0: "recognized_strand (strand' (SeqRange_init 0 0 CHR ''.''))"
    by (simp add: SeqRange_init_def Range_init_def recognized_strand_def Let_def)
  have r3: "recognized_strand (strand' (range'
      ((feature_invert ^^ n) (BasicSequenceFeature_init i s src t a b c sc))))"
    unfolding fpow using pow[OF r1, of n] by (simp add: BasicSequenceFeature_init_def)
  show ?thesis
    using c1 c2 r1 r2 r0 r3 pow[OF r1, of n] pow[OF r2, of n]
    by (simp add: getStrand_def getRange_def BasicSequenceFeature_init_def
        BasicSequenceFeature_default_def)
qed

text \<open>
  C6. \<^verbatim>\<open>invert()\<close> turns the strand \<open>+\<close> into \<open>-\<close> and \<open>-\<close> into \<open>+\<close> and leaves every
  other strand as it is; two calls give back the range (and the feature) as it was;
  start and end never change.
\<close>

theorem invert_strand:
  "getStrand (invert r) =
     (if getStrand r = CHR ''+'' then CHR ''-''
      else if getStrand r = CHR ''-'' then CHR ''+''
      else getStrand r)
   \<and> invert (invert r) = r
   \<and> begin' (invert r) = begin' r \<and> end' (invert r) = end' r
   \<and> feature_invert (feature_invert f) = f
   \<and> getStart (feature_invert f) = getStart f \<and> getEnd (feature_invert f) = getEnd f"
  by (simp add: invert_def getStrand_def isStranded_def isNegativeStrand_def
      feature_invert_def getStart_def getEnd_def)

subsection \<open>Attributes\<close>

text \<open>
  C7. After \<^verbatim>\<open>setAttribute(k, v)\<close> the read-only \<^verbatim>\<open>getAttribute(k)\<close> returns \<open>v\<close>, whether
  \<open>k\<close> was set before or not, and \<open>k\<close> is in the attribute list. After
  \<^verbatim>\<open>removeAttribute(k)\<close> it returns the static \<^verbatim>\<open>NO_ATTRIBUTE_SET\<close> (whatever its text \<open>s\<close>
  is). \<^verbatim>\<open>removeAttribute\<close> of a name that is not set changes nothing. Neither call
  changes what is read under another name.
\<close>

theorem attribute_round_trip:
  "getAttribute (setAttribute k v f) k = Stored v
   \<and> attribute_text s (getAttribute (setAttribute k v f) k) = v
   \<and> getAttributeList (setAttribute k v f) = insert k (getAttributeList f)
   \<and> getAttribute (removeAttribute k f) k = NO_ATTRIBUTE_SET
   \<and> attribute_text s (getAttribute (removeAttribute k f) k) = s
   \<and> (k \<notin> getAttributeList f \<longrightarrow> removeAttribute k f = f)
   \<and> (k' \<noteq> k \<longrightarrow> getAttribute (setAttribute k v f) k' = getAttribute f k'
                 \<and> getAttribute (removeAttribute k f) k' = getAttribute f k')"
  by (auto simp: getAttribute_def setAttribute_def removeAttribute_def getAttributeList_def
      split: option.splits)

theorem attribute_round_trip_witness:
  "''k'' \<notin> getAttributeList BasicSequenceFeature_default
   \<and> removeAttribute ''k'' BasicSequenceFeature_default = BasicSequenceFeature_default
   \<and> ''j'' \<noteq> ''k''
   \<and> getAttribute (setAttribute ''k'' ''v'' BasicSequenceFeature_default) ''j''
       = NO_ATTRIBUTE_SET
   \<and> getAttribute (setAttribute ''k'' ''v'' BasicSequenceFeature_default) ''k'' = Stored ''v''
   \<and> attribute_text ''unset''
        (getAttribute (removeAttribute ''k''
           (setAttribute ''k'' ''v'' BasicSequenceFeature_default)) ''k'') = ''unset''"
proof -
  have absent: "''k'' \<notin> getAttributeList BasicSequenceFeature_default"
    by (simp add: getAttributeList_def BasicSequenceFeature_default_def)
  have other: "getAttribute BasicSequenceFeature_default ''j'' = NO_ATTRIBUTE_SET"
    by (simp add: getAttribute_def BasicSequenceFeature_default_def)
  show ?thesis
    using absent other
      attribute_round_trip [of "''k''" "''v''" BasicSequenceFeature_default "''unset''" "''j''"]
      attribute_round_trip [of "''k''" "''v''"
        "setAttribute ''k'' ''v'' BasicSequenceFeature_default" "''unset''" "''j''"]
    by simp
qed

text \<open>
  C8. For a name \<open>k\<close> that is not in the attribute map, the mutable \<^verbatim>\<open>getAttribute(k)\<close>
  refers to an empty string and leaves \<open>k\<close> in the map: afterwards \<open>k\<close> is in
  \<^verbatim>\<open>getAttributeList()\<close>, and the read-only \<^verbatim>\<open>getAttribute(k)\<close> returns the stored empty
  string and not \<^verbatim>\<open>NO_ATTRIBUTE_SET\<close>, which it returned before.
\<close>

theorem mutable_getAttribute_creates:
  "k \<notin> getAttributeList f \<Longrightarrow>
     fst (getAttribute_mutable f k) = ''''
   \<and> k \<in> getAttributeList (snd (getAttribute_mutable f k))
   \<and> getAttribute (snd (getAttribute_mutable f k)) k = Stored ''''
   \<and> getAttribute (snd (getAttribute_mutable f k)) k \<noteq> NO_ATTRIBUTE_SET
   \<and> attribute_text s (getAttribute (snd (getAttribute_mutable f k)) k) = ''''
   \<and> getAttribute f k = NO_ATTRIBUTE_SET"
  by (auto simp: getAttribute_def getAttribute_mutable_def getAttributeList_def
      split: option.splits)

theorem mutable_getAttribute_creates_witness:
  "''k'' \<notin> getAttributeList BasicSequenceFeature_default
   \<and> ''k'' \<in> getAttributeList (snd (getAttribute_mutable BasicSequenceFeature_default ''k''))
   \<and> getAttribute (snd (getAttribute_mutable BasicSequenceFeature_default ''k'')) ''k''
       = Stored ''''"
proof -
  have absent: "''k'' \<notin> getAttributeList BasicSequenceFeature_default"
    by (simp add: getAttributeList_def BasicSequenceFeature_default_def)
  show ?thesis
    using absent mutable_getAttribute_creates [OF absent]
    by simp
qed

subsection \<open>Size\<close>

text \<open>
  C9. For a feature with start \<open>\<le>\<close> end, \<^verbatim>\<open>size()\<close> is end minus start; \<^verbatim>\<open>isEmpty()\<close>
  holds exactly when the size is 0, that is when start equals end; \<^verbatim>\<open>isPoint()\<close> holds
  exactly when the size is 1, that is when end is start plus one; no feature is both.
\<close>

theorem size_isEmpty_isPoint:
  "getStart f \<le> getEnd f \<Longrightarrow>
     unat (feature_size f) = unat (getEnd f) - unat (getStart f)
   \<and> (isEmpty f \<longleftrightarrow> feature_size f = 0)
   \<and> (isEmpty f \<longleftrightarrow> getStart f = getEnd f)
   \<and> (isPoint f \<longleftrightarrow> feature_size f = 1)
   \<and> (isPoint f \<longleftrightarrow> unat (getEnd f) = unat (getStart f) + 1)
   \<and> \<not> (isEmpty f \<and> isPoint f)"
proof -
  assume le: "getStart f \<le> getEnd f"
  have sz: "unat (feature_size f) = unat (getEnd f) - unat (getStart f)"
    unfolding feature_size_def using le by (rule unat_sub)
  have le_nat: "unat (getStart f) \<le> unat (getEnd f)"
    using le by (simp add: word_le_nat_alt)
  have empty: "isEmpty f \<longleftrightarrow> getStart f = getEnd f"
    by (auto simp: isEmpty_def feature_size_def)
  have "isPoint f \<longleftrightarrow> unat (feature_size f) = 1"
    unfolding isPoint_def by (metis unat_1 word_unat_eq_iff)
  then have point: "isPoint f \<longleftrightarrow> unat (getEnd f) = unat (getStart f) + 1"
    using sz le_nat by auto
  have excl: "\<not> (isEmpty f \<and> isPoint f)"
    by (simp add: isEmpty_def isPoint_def)
  show ?thesis
    using sz empty point excl by (simp add: isEmpty_def isPoint_def)
qed

theorem size_isEmpty_isPoint_witness:
  "getStart (BasicSequenceFeature_init ''f1'' ''chr1'' ''src'' ''gene'' 12 13 CHR ''+'' (- 1))
     \<le> getEnd (BasicSequenceFeature_init ''f1'' ''chr1'' ''src'' ''gene'' 12 13 CHR ''+'' (- 1))
   \<and> unat (feature_size
        (BasicSequenceFeature_init ''f1'' ''chr1'' ''src'' ''gene'' 12 13 CHR ''+'' (- 1))) = 1
   \<and> isPoint (BasicSequenceFeature_init ''f1'' ''chr1'' ''src'' ''gene'' 12 13 CHR ''+'' (- 1))
   \<and> \<not> isEmpty (BasicSequenceFeature_init ''f1'' ''chr1'' ''src'' ''gene'' 12 13 CHR ''+'' (- 1))"
  using size_isEmpty_isPoint
    [of "BasicSequenceFeature_init ''f1'' ''chr1'' ''src'' ''gene'' 12 13 CHR ''+'' (- 1)"]
  by (simp add: getStart_def getEnd_def BasicSequenceFeature_init_def SeqRange_init_def
      Range_init_def Let_def feature_size_def isPoint_def isEmpty_def)

subsection \<open>Overlap of two features\<close>

text \<open>
  C2. \<^verbatim>\<open>F.overlap(G)\<close> is true exactly when the two features have the same sequence id
  and their half-open ranges have a coordinate in common; with different sequence ids
  it is false whatever the coordinates. The ranges are the stored ones: the coordinates
  \<open>x\<close> with \<open>start \<le> x < end\<close>, read from the members of the two features (first
  equivalence) and, what is the same, through \<^verbatim>\<open>getStart()\<close> and \<^verbatim>\<open>getEnd()\<close> (second).
\<close>

theorem overlap_Feature_iff:
  "(overlap_Feature F G \<longleftrightarrow>
      sequenceId' F = sequenceId' G
      \<and> (\<exists>x. begin' (range' F) \<le> x \<and> x < end' (range' F)
             \<and> begin' (range' G) \<le> x \<and> x < end' (range' G)))
   \<and> (overlap_Feature F G \<longleftrightarrow>
      getSequenceId F = getSequenceId G
      \<and> (\<exists>x. getStart F \<le> x \<and> x < getEnd F \<and> getStart G \<le> x \<and> x < getEnd G))
   \<and> (overlap_Feature F G \<longleftrightarrow>
      getSequenceId F = getSequenceId G
      \<and> coordinates (getRange F) \<inter> coordinates (getRange G) \<noteq> {})
   \<and> (getSequenceId F \<noteq> getSequenceId G \<longrightarrow> \<not> overlap_Feature F G)"
proof -
  have shared: "coordinates (range' F) \<inter> coordinates (range' G) \<noteq> {} \<longleftrightarrow>
      (\<exists>x. begin' (range' F) \<le> x \<and> x < end' (range' F)
            \<and> begin' (range' G) \<le> x \<and> x < end' (range' G))"
    unfolding coordinates_def by blast
  have code: "overlap_Feature F G \<longleftrightarrow>
      sequenceId' F = sequenceId' G
      \<and> coordinates (range' F) \<inter> coordinates (range' G) \<noteq> {}"
    by (auto simp: overlap_Feature_def getSequenceId_def getRange_def Range_overlap_iff)
  show ?thesis
    using code unfolding shared
    by (simp add: getSequenceId_def getStart_def getEnd_def getRange_def shared)
qed

theorem overlap_Feature_iff_witness:
  "overlap_Feature
     (BasicSequenceFeature_init ''f'' ''chr1'' ''s'' ''gene'' 10 20 CHR ''+'' 0)
     (BasicSequenceFeature_init ''g'' ''chr1'' ''s'' ''exon'' 15 25 CHR ''-'' 0)
   \<and> \<not> overlap_Feature
         (BasicSequenceFeature_init ''f'' ''chr1'' ''s'' ''gene'' 10 20 CHR ''+'' 0)
         (BasicSequenceFeature_init ''h'' ''chr1'' ''s'' ''exon'' 20 30 CHR ''-'' 0)
   \<and> getSequenceId (BasicSequenceFeature_init ''f'' ''chr1'' ''s'' ''gene'' 10 20 CHR ''+'' 0)
       \<noteq> getSequenceId (BasicSequenceFeature_init ''k'' ''chr2'' ''s'' ''exon'' 15 25 CHR ''-'' 0)
   \<and> \<not> overlap_Feature
         (BasicSequenceFeature_init ''f'' ''chr1'' ''s'' ''gene'' 10 20 CHR ''+'' 0)
         (BasicSequenceFeature_init ''k'' ''chr2'' ''s'' ''exon'' 15 25 CHR ''-'' 0)"
proof -
  let ?F = "BasicSequenceFeature_init ''f'' ''chr1'' ''s'' ''gene'' 10 20 CHR ''+'' 0"
  let ?G = "BasicSequenceFeature_init ''g'' ''chr1'' ''s'' ''exon'' 15 25 CHR ''-'' 0"
  let ?H = "BasicSequenceFeature_init ''h'' ''chr1'' ''s'' ''exon'' 20 30 CHR ''-'' 0"
  let ?K = "BasicSequenceFeature_init ''k'' ''chr2'' ''s'' ''exon'' 15 25 CHR ''-'' 0"
  have coords: "getStart ?F = 10" "getEnd ?F = 20" "getStart ?G = 15" "getEnd ?G = 25"
    "getStart ?H = 20" "getEnd ?H = 30"
    by (simp_all add: getStart_def getEnd_def BasicSequenceFeature_init_def SeqRange_init_def
        Range_init_def Let_def)
  have ids: "getSequenceId ?F = ''chr1''" "getSequenceId ?G = ''chr1''"
    "getSequenceId ?H = ''chr1''" "getSequenceId ?K = ''chr2''"
    by (simp_all add: getSequenceId_def BasicSequenceFeature_init_def)
  have fifteen: "\<exists>x::64 word. 10 \<le> x \<and> x < 20 \<and> 15 \<le> x \<and> x < 25"
    by (rule exI[of _ 15]) simp
  have none: "\<not> (\<exists>x::64 word. 10 \<le> x \<and> x < 20 \<and> 20 \<le> x \<and> x < 30)"
    by auto
  have yes: "overlap_Feature ?F ?G"
    using overlap_Feature_iff [of ?F ?G, THEN conjunct2, THEN conjunct1] fifteen
    unfolding coords ids by simp
  have touch: "\<not> overlap_Feature ?F ?H"
    using overlap_Feature_iff [of ?F ?H, THEN conjunct2, THEN conjunct1] none
    unfolding coords ids by simp
  have other: "\<not> overlap_Feature ?F ?K"
    using overlap_Feature_iff [of ?F ?K, THEN conjunct2, THEN conjunct2, THEN conjunct2]
    unfolding ids by simp
  show ?thesis
    using yes touch other unfolding ids by simp
qed

section \<open>Memory: allocation and the loops\<close>

lemma deref_all_eq: "deref_all m ps = Some xs \<longleftrightarrow> map (feature_at m) ps = map Some xs"
proof (induction ps arbitrary: xs)
  case Nil
  then show ?case by auto
next
  case (Cons p ps)
  then show ?case
    by (cases xs) (auto split: option.splits)
qed

lemma feature_at_Some_less: "feature_at m p = Some f \<Longrightarrow> p < length (feature_cells m)"
  by (simp add: feature_at_def split: if_splits)

lemma appended_Nil: "appended m [] s = m"
  by (simp add: appended_def)

lemma appended_appended: "appended (appended m xs s) ys s = appended m (xs @ ys) s"
proof (cases "s < length (set_cells m)")
  case True
  have "[length (feature_cells m)..<length (feature_cells m) + length xs] @
        [length (feature_cells m) + length xs..<length (feature_cells m) + length xs + length ys]
        = [length (feature_cells m)..<length (feature_cells m) + (length xs + length ys)]"
    by (metis add.assoc le_add1 upt_add_eq_append)
  with True show ?thesis
    by (simp add: appended_def)
next
  case False
  then show ?thesis by (simp add: appended_def list_update_beyond)
qed

lemma feature_cells_appended [simp]:
  "feature_cells (appended m fs s) = feature_cells m @ map Some fs"
  by (simp add: appended_def)

lemma length_set_cells_appended [simp]:
  "length (set_cells (appended m fs s)) = length (set_cells m)"
  by (simp add: appended_def)

lemma feature_at_appended:
  "p < length (feature_cells m) \<Longrightarrow> feature_at (appended m fs s) p = feature_at m p"
  by (simp add: feature_at_def nth_append)

lemma feature_at_appended_new:
  "i < length fs \<Longrightarrow> feature_at (appended m fs s) (length (feature_cells m) + i) = Some (fs ! i)"
  by (simp add: feature_at_def nth_append)

lemma map_feature_at_appended:
  assumes "map (feature_at m) ps = map Some xs"
  shows "map (feature_at (appended m fs s)) ps = map Some xs"
proof -
  have "feature_at (appended m fs s) p = feature_at m p" if "p \<in> set ps" for p
  proof -
    from that have "feature_at m p \<in> set (map (feature_at m) ps)"
      by simp
    then obtain x where "feature_at m p = Some x"
      unfolding assms by auto
    then show ?thesis
      by (simp add: feature_at_appended feature_at_Some_less)
  qed
  then have "map (feature_at (appended m fs s)) ps = map (feature_at m) ps"
    by simp
  with assms show ?thesis by simp
qed

lemma features'_appended_same:
  "s < length (set_cells m) \<Longrightarrow>
   features' (appended m fs s) s = Some (set_cells m ! s
      @ [length (feature_cells m) ..< length (feature_cells m) + length fs])"
  by (simp add: features'_def appended_def)

lemma features'_appended_other:
  "t \<noteq> s \<Longrightarrow> features' (appended m fs s) t = features' m t"
  by (simp add: features'_def appended_def)

lemma addFeature_eq:
  assumes "feature_at m p = Some f" and "s < length (set_cells m)"
  shows "addFeature s p m = Some (appended m [f] s)"
  using assms
  by (simp add: addFeature_def clone_def new_feature_def push_back_def appended_def)

lemma addFeature_SomeD:
  assumes "addFeature s p m = Some m'"
  shows "\<exists>f. feature_at m p = Some f \<and> s < length (set_cells m) \<and> m' = appended m [f] s"
  using assms
  by (auto simp: addFeature_def clone_def new_feature_def push_back_def appended_def
      split: option.splits if_splits)

lemma getSubset_loop_eq:
  assumes "map (feature_at m) its = map Some xs" and "s < length (set_cells m)"
  shows "getSubset_loop keep s its m = Some (appended m (filter keep xs) s)"
  using assms
proof (induction its arbitrary: m xs)
  case Nil
  then show ?case by (simp add: appended_Nil)
next
  case (Cons it its)
  from Cons.prems(1) obtain f fs where xs: "xs = f # fs" and f: "feature_at m it = Some f"
    and rest: "map (feature_at m) its = map Some fs"
    by (cases xs) auto
  show ?case
  proof (cases "keep f")
    case True
    have add: "addFeature s it m = Some (appended m [f] s)"
      using f Cons.prems(2) by (rule addFeature_eq)
    have "getSubset_loop keep s its (appended m [f] s)
            = Some (appended (appended m [f] s) (filter keep fs) s)"
      using map_feature_at_appended[OF rest] Cons.prems(2) by (intro Cons.IH) simp_all
    then show ?thesis
      using True f add xs by (simp add: appended_appended)
  next
    case False
    then show ?thesis
      using f xs Cons.IH[OF rest Cons.prems(2)] by simp
  qed
qed

lemma clone_all_eq:
  assumes "map (feature_at m) its = map Some xs" and "s < length (set_cells m)"
  shows "clone_all s its m = Some (appended m xs s)"
  using assms
proof (induction its arbitrary: m xs)
  case Nil
  then show ?case by (simp add: appended_Nil)
next
  case (Cons it its)
  from Cons.prems(1) obtain f fs where xs: "xs = f # fs" and f: "feature_at m it = Some f"
    and rest: "map (feature_at m) its = map Some fs"
    by (cases xs) auto
  have add: "addFeature s it m = Some (appended m [f] s)"
    using f Cons.prems(2) by (rule addFeature_eq)
  have "clone_all s its (appended m [f] s) = Some (appended (appended m [f] s) fs s)"
    using map_feature_at_appended[OF rest] Cons.prems(2) by (intro Cons.IH) simp_all
  then show ?case
    using add xs by (simp add: appended_appended)
qed

lemma clone_all_SomeD:
  "clone_all s its m = Some m' \<Longrightarrow> \<exists>xs. length xs = length its \<and> m' = appended m xs s"
proof (induction its arbitrary: m)
  case Nil
  then show ?case by (simp add: appended_Nil)
next
  case (Cons it its)
  from Cons.prems obtain m1 where a: "addFeature s it m = Some m1"
    and c: "clone_all s its m1 = Some m'"
    by (cases "addFeature s it m") simp_all
  from addFeature_SomeD[OF a] obtain f where m1: "m1 = appended m [f] s" by blast
  from Cons.IH[OF c] obtain xs where "length xs = length its" "m' = appended m1 xs s" by blast
  then have "length (f # xs) = length (it # its) \<and> m' = appended m (f # xs) s"
    using m1 by (simp add: appended_appended)
  then show ?case by blast
qed

subsection \<open>The elements of a set after the loops\<close>

lemma contents_eq:
  "contents m s = Some xs \<longleftrightarrow>
     s < length (set_cells m) \<and> map (feature_at m) (set_cells m ! s) = map Some xs"
  by (simp add: contents_def features'_def deref_all_eq)

lemma map_feature_at_new:
  "map (feature_at (appended m fs s))
       [length (feature_cells m) ..< length (feature_cells m) + length fs] = map Some fs"
proof (rule nth_equalityI)
  show "length (map (feature_at (appended m fs s))
       [length (feature_cells m) ..< length (feature_cells m) + length fs]) = length (map Some fs)"
    by simp
next
  fix i
  assume "i < length (map (feature_at (appended m fs s))
       [length (feature_cells m) ..< length (feature_cells m) + length fs])"
  then have "i < length fs" by simp
  then show "map (feature_at (appended m fs s))
       [length (feature_cells m) ..< length (feature_cells m) + length fs] ! i = map Some fs ! i"
    by (simp add: feature_at_appended_new)
qed

lemma contents_appended_same:
  assumes "contents m s = Some xs"
  shows "contents (appended m fs s) s = Some (xs @ fs)"
proof -
  from assms have s: "s < length (set_cells m)"
    and old: "map (feature_at m) (set_cells m ! s) = map Some xs"
    by (simp_all add: contents_eq)
  have "map (feature_at (appended m fs s)) (set_cells m ! s
      @ [length (feature_cells m) ..< length (feature_cells m) + length fs]) = map Some (xs @ fs)"
    using map_feature_at_appended[OF old] map_feature_at_new by simp
  then show ?thesis
    using s by (simp add: contents_def features'_appended_same deref_all_eq)
qed

lemma contents_appended_other:
  assumes "contents m t = Some ys" and "t \<noteq> s"
  shows "contents (appended m fs s) t = Some ys"
proof -
  from assms have t: "t < length (set_cells m)"
    and old: "map (feature_at m) (set_cells m ! t) = map Some ys"
    by (simp_all add: contents_eq)
  have "features' (appended m fs s) t = Some (set_cells m ! t)"
    using t assms(2) by (simp add: features'_def appended_def)
  then show ?thesis
    using map_feature_at_appended[OF old] by (simp add: contents_def deref_all_eq)
qed

lemma feature_at_set_cells_update [simp]:
  "feature_at (m\<lparr>set_cells := x\<rparr>) = feature_at m"
  by (rule ext) (simp add: feature_at_def)

lemma contents_init_old:
  assumes "contents m t = Some ys"
  shows "contents (m\<lparr>set_cells := set_cells m @ [[]]\<rparr>) t = Some ys"
  using assms by (simp add: contents_eq nth_append)

lemma contents_init_new:
  "contents (m\<lparr>set_cells := set_cells m @ [[]]\<rparr>) (length (set_cells m)) = Some []"
  by (simp add: contents_eq)

lemma getSubset_eq:
  assumes "contents m this = Some xs"
  shows "getSubset keep this m =
     Some (length (set_cells m),
           appended (m\<lparr>set_cells := set_cells m @ [[]]\<rparr>) (filter keep xs) (length (set_cells m)))"
proof -
  let ?m1 = "m\<lparr>set_cells := set_cells m @ [[]]\<rparr>"
  from assms have lt: "this < length (set_cells m)"
    and old: "map (feature_at m) (set_cells m ! this) = map Some xs"
    by (simp_all add: contents_eq)
  have its: "features' ?m1 this = Some (set_cells m ! this)"
    using lt by (simp add: features'_def nth_append)
  have "map (feature_at ?m1) (set_cells m ! this) = map Some xs"
    using old by simp
  then have "getSubset_loop keep (length (set_cells m)) (set_cells m ! this) ?m1
      = Some (appended ?m1 (filter keep xs) (length (set_cells m)))"
    by (rule getSubset_loop_eq) simp
  then show ?thesis
    using its by (simp add: getSubset_def SequenceFeatureSet_init_def)
qed

lemma getSubset_contents:
  assumes "contents m this = Some xs"
  shows "\<exists>sub m'. getSubset keep this m = Some (sub, m')
           \<and> contents m' sub = Some (filter keep xs)
           \<and> contents m' this = Some xs
           \<and> sub \<noteq> this \<and> contents m sub = None"
proof -
  let ?m1 = "m\<lparr>set_cells := set_cells m @ [[]]\<rparr>"
  let ?sub = "length (set_cells m)"
  from assms have lt: "this < ?sub"
    by (simp add: contents_eq)
  have "contents (appended ?m1 (filter keep xs) ?sub) ?sub = Some ([] @ filter keep xs)"
    using contents_init_new by (rule contents_appended_same)
  moreover have "contents (appended ?m1 (filter keep xs) ?sub) this = Some xs"
    using contents_init_old[OF assms] lt by (intro contents_appended_other) simp_all
  moreover have "contents m ?sub = None"
    by (simp add: contents_def features'_def)
  ultimately show ?thesis
    using getSubset_eq[OF assms, of keep] lt by simp
qed

lemma elements_getSubset:
  assumes "contents m this = Some xs"
  shows "elements (getSubset keep this m) = filter keep xs"
  using getSubset_contents[OF assms, of keep] by (auto simp: elements_def)

subsection \<open>Order of a selection\<close>

lemma kept_in_order_filter: "kept_in_order keep xs (filter keep xs)"
proof -
  let ?idx = "filter (\<lambda>i. keep (xs ! i)) [0..<length xs]"
  have "sorted_wrt (<) ?idx"
    by (rule sorted_wrt_filter) simp
  moreover have "set ?idx = {i. i < length xs \<and> keep (xs ! i)}"
    by auto
  moreover have "filter keep xs = map ((!) xs) ?idx"
  proof -
    have "filter keep xs = filter keep (map ((!) xs) [0..<length xs])"
      by (simp add: map_nth)
    also have "\<dots> = map ((!) xs) ?idx"
      by (simp add: filter_map comp_def)
    finally show ?thesis .
  qed
  ultimately show ?thesis
    unfolding kept_in_order_def by blast
qed

lemma kept_in_order_unique:
  assumes "kept_in_order keep xs ys"
  shows "ys = filter keep xs"
proof -
  from assms obtain idx where s: "sorted_wrt (<) idx"
    and i: "set idx = {i. i < length xs \<and> keep (xs ! i)}" and y: "ys = map ((!) xs) idx"
    unfolding kept_in_order_def by blast
  let ?idx = "filter (\<lambda>i. keep (xs ! i)) [0..<length xs]"
  have "sorted_wrt (<) ?idx" by (rule sorted_wrt_filter) simp
  moreover have "set ?idx = set idx" using i by auto
  ultimately have "idx = ?idx"
    using s by (metis strict_sorted_equal)
  then have "ys = map ((!) xs) ?idx" using y by simp
  also have "\<dots> = filter keep (map ((!) xs) [0..<length xs])"
    by (simp add: filter_map comp_def)
  finally show ?thesis by (simp add: map_nth)
qed

subsection \<open>Range collections\<close>

lemma fillRangeCollection_loop_eq:
  assumes "map (feature_at m) its = map Some xs"
  shows "fillRangeCollection_loop addRange m its coords
           = Some (fold addRange (map getRange xs) coords)"
  using assms
proof (induction its arbitrary: xs coords)
  case Nil
  then show ?case by simp
next
  case (Cons it its)
  then show ?case by (cases xs) auto
qed

lemma fillRangeCollectionForSequence_loop_eq:
  assumes "map (feature_at m) its = map Some xs"
  shows "fillRangeCollectionForSequence_loop addRange m seqId its coords
           = Some (fold addRange (map getRange (filter (\<lambda>f. getSequenceId f = seqId) xs)) coords)"
  using assms
proof (induction its arbitrary: xs coords)
  case Nil
  then show ?case by simp
next
  case (Cons it its)
  then show ?case by (cases xs) auto
qed

lemma fold_emitted: "fold emitted rs coords = coords @ rs"
  by (induction rs arbitrary: coords) (simp_all add: emitted_def)

section \<open>Subsets\<close>

lemma contents_example_memory:
  "contents example_memory 0 = Some [gene_10_20, exon_22_28, gene_15_25]"
  by (simp add: contents_def features'_def example_memory_def feature_at_def)

lemma example_ranges:
  "getStart gene_10_20 = 10" "getEnd gene_10_20 = 20"
  "getStart exon_22_28 = 22" "getEnd exon_22_28 = 28"
  "getStart gene_15_25 = 15" "getEnd gene_15_25 = 25"
  by (simp_all add: gene_10_20_def exon_22_28_def gene_15_25_def getStart_def getEnd_def
      BasicSequenceFeature_init_def SeqRange_init_def Range_init_def Let_def)

lemma overlap_SeqRange_init:
  "overlap_SeqRange f (SeqRange_init a b c) \<longleftrightarrow> max (getStart f) a < min (getEnd f) b"
  by (simp add: overlap_SeqRange_def Range_overlap_def SeqRange_init_def Range_init_def Let_def
      getStart_def getEnd_def)

lemma isIncludedIn_init:
  "isIncludedIn f (SeqRange_init a b c) \<longleftrightarrow> a \<le> getStart f \<and> getEnd f \<le> b"
  by (simp add: isIncludedIn_def Range_contains_def SeqRange_init_def Range_init_def Let_def
      getStart_def getEnd_def)

text \<open>
  C1. For a set \<open>S\<close> with the elements \<open>xs\<close> and a range \<open>r\<close>,
  \<^verbatim>\<open>getSubsetForRange(r, true)\<close> returns a new set whose elements are the features of \<open>S\<close>
  with \<^verbatim>\<open>isIncludedIn(r)\<close> and no other, \<^verbatim>\<open>getSubsetForRange(r, false)\<close> those with
  \<^verbatim>\<open>overlap(r)\<close> and no other, and \<open>S\<close> keeps its elements. A feature with the range
  \<open>[10, 20)\<close> is not in the subset for \<open>[20, 30)\<close> without \<^verbatim>\<open>complete\<close>, is in the
  subset for \<open>[15, 25)\<close> without \<^verbatim>\<open>complete\<close> and is not in it with \<^verbatim>\<open>complete\<close>.
\<close>

theorem getSubsetForRange_selects:
  assumes "contents m S = Some xs"
  shows "(\<exists>T m'. getSubsetForRange r whole S m = Some (T, m')
            \<and> contents m' T
                = Some (filter (\<lambda>f. if whole then isIncludedIn f r else overlap_SeqRange f r) xs)
            \<and> contents m' S = Some xs)
       \<and> elements (getSubsetForRange r whole S m)
           = filter (\<lambda>f. if whole then isIncludedIn f r else overlap_SeqRange f r) xs
       \<and> set (elements (getSubsetForRange r True S m)) = {f \<in> set xs. isIncludedIn f r}
       \<and> set (elements (getSubsetForRange r False S m)) = {f \<in> set xs. overlap_SeqRange f r}
       \<and> (\<forall>f\<in>set xs. getStart f = 10 \<and> getEnd f = 20 \<longrightarrow>
             f \<notin> set (elements (getSubsetForRange (SeqRange_init 20 30 c) False S m))
           \<and> f \<in> set (elements (getSubsetForRange (SeqRange_init 15 25 c) False S m))
           \<and> f \<notin> set (elements (getSubsetForRange (SeqRange_init 15 25 c) True S m)))"
proof -
  have ex: "\<exists>T m'. getSubsetForRange r whole S m = Some (T, m')
            \<and> contents m' T
                = Some (filter (\<lambda>f. if whole then isIncludedIn f r else overlap_SeqRange f r) xs)
            \<and> contents m' S = Some xs"
    using getSubset_contents[OF assms] unfolding getSubsetForRange_def by blast
  have el: "elements (getSubsetForRange r' w S m)
           = filter (\<lambda>f. if w then isIncludedIn f r' else overlap_SeqRange f r') xs" for r' w
    unfolding getSubsetForRange_def by (rule elements_getSubset[OF assms])
  have particular: "f \<notin> set (elements (getSubsetForRange (SeqRange_init 20 30 c) False S m))
           \<and> f \<in> set (elements (getSubsetForRange (SeqRange_init 15 25 c) False S m))
           \<and> f \<notin> set (elements (getSubsetForRange (SeqRange_init 15 25 c) True S m))"
    if "f \<in> set xs" "getStart f = 10" "getEnd f = 20" for f
    using that by (simp add: el overlap_SeqRange_init isIncludedIn_init)
  show ?thesis
    using ex el particular by simp
qed

theorem getSubsetForRange_selects_witness:
  "contents example_memory 0 = Some [gene_10_20, exon_22_28, gene_15_25]
   \<and> elements (getSubsetForRange (SeqRange_init 20 30 CHR ''.'') False 0 example_memory)
       = [exon_22_28, gene_15_25]
   \<and> elements (getSubsetForRange (SeqRange_init 15 25 CHR ''.'') False 0 example_memory)
       = [gene_10_20, exon_22_28, gene_15_25]
   \<and> elements (getSubsetForRange (SeqRange_init 15 25 CHR ''.'') True 0 example_memory)
       = [gene_15_25]
   \<and> elements (getSubsetForRange (SeqRange_init 5 25 CHR ''.'') True 0 example_memory)
       = [gene_10_20, gene_15_25]"
  using getSubsetForRange_selects [OF contents_example_memory, of "SeqRange_init 20 30 CHR ''.''" False]
    getSubsetForRange_selects [OF contents_example_memory, of "SeqRange_init 15 25 CHR ''.''" False]
    getSubsetForRange_selects [OF contents_example_memory, of "SeqRange_init 15 25 CHR ''.''" True]
    getSubsetForRange_selects [OF contents_example_memory, of "SeqRange_init 5 25 CHR ''.''" True]
  by (simp add: contents_example_memory overlap_SeqRange_init isIncludedIn_init example_ranges)

lemma getSubset_kept_in_order:
  assumes "contents m S = Some xs"
  shows "\<exists>T m' ys. getSubset keep S m = Some (T, m') \<and> contents m' T = Some ys
           \<and> kept_in_order keep xs ys"
  using getSubset_contents[OF assms, of keep] kept_in_order_filter[of keep xs] by blast

lemma fillRangeCollection_eq:
  assumes "contents m S = Some xs"
  shows "fillRangeCollection addRange m S coords = Some (fold addRange (map getRange xs) coords)"
proof -
  from assms have its: "features' m S = Some (set_cells m ! S)"
    and old: "map (feature_at m) (set_cells m ! S) = map Some xs"
    by (simp_all add: contents_eq features'_def)
  show ?thesis
    using its fillRangeCollection_loop_eq[OF old] by (simp add: fillRangeCollection_def)
qed

lemma fillRangeCollectionForSequence_eq:
  assumes "contents m S = Some xs"
  shows "fillRangeCollectionForSequence addRange m seqId S coords
      = Some (fold addRange (map getRange (filter (\<lambda>f. getSequenceId f = seqId) xs)) coords)"
proof -
  from assms have its: "features' m S = Some (set_cells m ! S)"
    and old: "map (feature_at m) (set_cells m ! S) = map Some xs"
    by (simp_all add: contents_eq features'_def)
  show ?thesis
    using its fillRangeCollectionForSequence_loop_eq[OF old]
    by (simp add: fillRangeCollectionForSequence_def)
qed

text \<open>
  C10. Each of the five \<^verbatim>\<open>getSubsetFor...\<close> functions returns the features it keeps in
  the order they have in the receiver: the kept indices of the receiver, in increasing
  order, give the result. \<^verbatim>\<open>fillRangeCollection\<close> calls \<^verbatim>\<open>addRange\<close> with the range of
  every element in the receiver's order, \<^verbatim>\<open>fillRangeCollectionForSequence\<close> with the
  ranges of the kept elements in that order.
\<close>

theorem filters_keep_order:
  assumes "contents m S = Some xs"
  shows "(\<exists>T m' ys. getSubsetForType type S m = Some (T, m') \<and> contents m' T = Some ys
            \<and> kept_in_order (\<lambda>f. getType f = type) xs ys)
       \<and> (\<exists>T m' ys. getSubsetForTypes types S m = Some (T, m') \<and> contents m' T = Some ys
            \<and> kept_in_order (\<lambda>f. getType f \<in> set types) xs ys)
       \<and> (\<exists>T m' ys. getSubsetForSequence ident S m = Some (T, m') \<and> contents m' T = Some ys
            \<and> kept_in_order (\<lambda>f. getSequenceId f = ident) xs ys)
       \<and> (\<exists>T m' ys. getSubsetForSequences ids S m = Some (T, m') \<and> contents m' T = Some ys
            \<and> kept_in_order (\<lambda>f. getSequenceId f \<in> set ids) xs ys)
       \<and> (\<exists>T m' ys. getSubsetForRange r whole S m = Some (T, m') \<and> contents m' T = Some ys
            \<and> kept_in_order (\<lambda>f. if whole then isIncludedIn f r else overlap_SeqRange f r) xs ys)
       \<and> fillRangeCollection addRange m S coords = Some (fold addRange (map getRange xs) coords)
       \<and> fillRangeCollection emitted m S rs = Some (rs @ map getRange xs)
       \<and> (\<exists>ys. kept_in_order (\<lambda>f. getSequenceId f = ident) xs ys
            \<and> fillRangeCollectionForSequence addRange m ident S coords
                = Some (fold addRange (map getRange ys) coords)
            \<and> fillRangeCollectionForSequence emitted m ident S rs = Some (rs @ map getRange ys))"
proof -
  note fill = fillRangeCollection_eq[OF assms]
  note fillseq = fillRangeCollectionForSequence_eq[OF assms]
  have seq: "\<exists>ys. kept_in_order (\<lambda>f. getSequenceId f = ident) xs ys
            \<and> fillRangeCollectionForSequence addRange m ident S coords
                = Some (fold addRange (map getRange ys) coords)
            \<and> fillRangeCollectionForSequence emitted m ident S rs = Some (rs @ map getRange ys)"
    using kept_in_order_filter[of "\<lambda>f. getSequenceId f = ident" xs]
      fillseq[of addRange ident coords] fillseq[of emitted ident rs]
    by (auto simp: fold_emitted)
  show ?thesis
    unfolding getSubsetForType_def getSubsetForTypes_def getSubsetForSequence_def
      getSubsetForSequences_def getSubsetForRange_def
    using getSubset_kept_in_order[OF assms] fill[of addRange coords] fill[of emitted rs] seq
    by (simp add: fold_emitted)
qed

theorem filters_keep_order_witness:
  "contents example_memory 0 = Some [gene_10_20, exon_22_28, gene_15_25]
   \<and> (\<exists>T m' ys. getSubsetForType ''gene'' 0 example_memory = Some (T, m')
         \<and> contents m' T = Some ys
         \<and> kept_in_order (\<lambda>f. getType f = ''gene'') [gene_10_20, exon_22_28, gene_15_25] ys)
   \<and> elements (getSubsetForType ''gene'' 0 example_memory) = [gene_10_20, gene_15_25]
   \<and> fillRangeCollectionForSequence emitted example_memory ''chr1'' 0 []
       = Some [getRange gene_10_20, getRange exon_22_28]"
proof -
  have el: "elements (getSubsetForType ''gene'' 0 example_memory) = [gene_10_20, gene_15_25]"
    by (simp add: getSubsetForType_def getSubset_def SequenceFeatureSet_init_def
        example_memory_def features'_def feature_at_def addFeature_def clone_def new_feature_def
        push_back_def elements_def contents_def getType_def gene_10_20_def exon_22_28_def
        gene_15_25_def BasicSequenceFeature_init_def)
  have fill: "fillRangeCollectionForSequence emitted example_memory ''chr1'' 0 []
       = Some [getRange gene_10_20, getRange exon_22_28]"
    by (simp add: fillRangeCollectionForSequence_def example_memory_def features'_def
        feature_at_def emitted_def getSequenceId_def gene_10_20_def exon_22_28_def
        gene_15_25_def BasicSequenceFeature_init_def)
  show ?thesis
    using filters_keep_order [OF contents_example_memory, of "''gene''", THEN conjunct1] el fill
    by (simp add: contents_example_memory)
qed

section \<open>Clearing, assigning and copying a set\<close>

lemma map_feature_at_cong:
  assumes "\<And>p. p \<in> set ps \<Longrightarrow> feature_at m' p = feature_at m p"
    and "map (feature_at m) ps = map Some xs"
  shows "map (feature_at m') ps = map Some xs"
proof -
  have "map (feature_at m') ps = map (feature_at m) ps"
    using assms(1) by (intro map_cong) simp_all
  with assms(2) show ?thesis by simp
qed

lemma delete_feature_SomeD:
  assumes "delete_feature it m = Some m'"
  shows "set_cells m' = set_cells m \<and> length (feature_cells m') = length (feature_cells m)
       \<and> feature_at m' p = (if p = it then None else feature_at m p)"
  using assms
  by (auto simp: delete_feature_def feature_at_def split: option.splits if_splits)

lemma delete_all_SomeD:
  assumes "delete_all its m = Some m'"
  shows "set_cells m' = set_cells m \<and> length (feature_cells m') = length (feature_cells m)
       \<and> feature_at m' p = (if p \<in> set its then None else feature_at m p)"
  using assms
proof (induction its arbitrary: m)
  case Nil
  then show ?case by simp
next
  case (Cons it its)
  from Cons.prems obtain m1 where d: "delete_feature it m = Some m1"
    and r: "delete_all its m1 = Some m'"
    by (cases "delete_feature it m") simp_all
  show ?case
    using delete_feature_SomeD[OF d, of p] Cons.IH[OF r] by auto
qed

lemma delete_all_Some:
  assumes "map (feature_at m) its = map Some xs" and "distinct its"
  shows "\<exists>m'. delete_all its m = Some m'"
  using assms
proof (induction its arbitrary: m xs)
  case Nil
  then show ?case by simp
next
  case (Cons it its)
  from Cons.prems(1) obtain f fs where f: "feature_at m it = Some f"
    and rest: "map (feature_at m) its = map Some fs"
    by (cases xs) auto
  from f obtain m1 where d: "delete_feature it m = Some m1"
    by (simp add: delete_feature_def)
  have "feature_at m1 p = feature_at m p" if "p \<in> set its" for p
    using delete_feature_SomeD[OF d, of p] that Cons.prems(2) by auto
  then have "map (feature_at m1) its = map Some fs"
    using rest by (rule map_feature_at_cong)
  then obtain m' where "delete_all its m1 = Some m'"
    using Cons.IH Cons.prems(2) by auto
  then show ?case
    using d by simp
qed

lemma clear_SomeD:
  assumes "clear s m = Some m'"
  shows "\<exists>ps. features' m s = Some ps \<and> set_cells m' = (set_cells m)[s := []]
       \<and> length (feature_cells m') = length (feature_cells m)
       \<and> (\<forall>p. feature_at m' p = (if p \<in> set ps then None else feature_at m p))"
proof -
  from assms obtain ps m1 where ps: "features' m s = Some ps"
    and d: "delete_all ps m = Some m1" and m': "m' = m1\<lparr>set_cells := (set_cells m1)[s := []]\<rparr>"
    by (auto simp: clear_def split: option.splits)
  show ?thesis
    using ps m' delete_all_SomeD[OF d] by simp
qed

lemma clear_Some:
  assumes "contents m s = Some xs" and "distinct (set_cells m ! s)"
  shows "\<exists>m'. clear s m = Some m'"
proof -
  from assms(1) have ps: "features' m s = Some (set_cells m ! s)"
    and live: "map (feature_at m) (set_cells m ! s) = map Some xs"
    by (simp_all add: contents_eq features'_def)
  from delete_all_Some[OF live assms(2)] obtain m1
    where "delete_all (set_cells m ! s) m = Some m1" by blast
  then show ?thesis
    using ps by (simp add: clear_def)
qed

lemma contents_after_clear:
  assumes "clear s m = Some m'"
  shows "contents m' s = Some []"
proof -
  from clear_SomeD[OF assms] obtain ps where "features' m s = Some ps"
    and "set_cells m' = (set_cells m)[s := []]"
    by blast
  then show ?thesis
    by (simp add: contents_eq features'_def split: if_splits)
qed

lemma assign_self:
  assumes "contents m S = Some xs" and "distinct (set_cells m ! S)"
  shows "\<exists>m'. assign S S m = Some m' \<and> contents m' S = Some []
           \<and> getNumberOfFeatures m' S = Some 0"
proof -
  from clear_Some[OF assms] obtain m1 where c: "clear S m = Some m1" by blast
  from contents_after_clear[OF c] have e: "contents m1 S = Some []" .
  then have its: "features' m1 S = Some []"
    by (auto simp: contents_eq features'_def)
  have "assign S S m = Some m1"
    using c its by (simp add: assign_def)
  then show ?thesis
    using e its by (simp add: getNumberOfFeatures_def)
qed

lemma assign_other:
  assumes S: "contents m S = Some xs" and dS: "distinct (set_cells m ! S)"
    and T: "contents m T = Some ys" and ne: "S \<noteq> T"
    and sep: "set (set_cells m ! S) \<inter> set (set_cells m ! T) = {}"
  shows "\<exists>m'. assign S T m = Some m' \<and> contents m' S = Some ys \<and> contents m' T = Some ys
           \<and> set_cells m' ! T = set_cells m ! T
           \<and> distinct (set_cells m' ! S)
           \<and> set (set_cells m' ! S) \<inter> set (set_cells m' ! T) = {}"
proof -
  from clear_Some[OF S dS] obtain m1 where c: "clear S m = Some m1" by blast
  from clear_SomeD[OF c] S have sc: "set_cells m1 = (set_cells m)[S := []]"
    and len: "length (feature_cells m1) = length (feature_cells m)"
    and fa: "\<And>p. feature_at m1 p = (if p \<in> set (set_cells m ! S) then None else feature_at m p)"
    by (auto simp: contents_eq features'_def)
  from S T have lS: "S < length (set_cells m)" and lT: "T < length (set_cells m)"
    and liveT: "map (feature_at m) (set_cells m ! T) = map Some ys"
    by (simp_all add: contents_eq)
  have its: "features' m1 T = Some (set_cells m ! T)"
    using sc lT ne by (simp add: features'_def)
  have "feature_at m1 p = feature_at m p" if "p \<in> set (set_cells m ! T)" for p
    using fa[of p] that sep by auto
  then have live1: "map (feature_at m1) (set_cells m ! T) = map Some ys"
    using liveT by (rule map_feature_at_cong)
  have lS1: "S < length (set_cells m1)"
    using sc lS by simp
  have cl: "clone_all S (set_cells m ! T) m1 = Some (appended m1 ys S)"
    using live1 lS1 by (rule clone_all_eq)
  have a: "assign S T m = Some (appended m1 ys S)"
    using c its cl by (simp add: assign_def)
  have e1: "contents m1 S = Some []"
    using contents_after_clear[OF c] .
  have cS: "contents (appended m1 ys S) S = Some ([] @ ys)"
    using e1 by (rule contents_appended_same)
  have cT1: "contents m1 T = Some ys"
    using its live1 by (simp add: contents_def deref_all_eq)
  have cT: "contents (appended m1 ys S) T = Some ys"
    using cT1 ne by (intro contents_appended_other) auto
  have pT: "set_cells (appended m1 ys S) ! T = set_cells m ! T"
    using sc ne lT by (simp add: appended_def)
  have pS: "set_cells (appended m1 ys S) ! S
      = [length (feature_cells m) ..< length (feature_cells m) + length ys]"
    using sc lS len by (simp add: appended_def)
  have bound: "p < length (feature_cells m)" if "p \<in> set (set_cells m ! T)" for p
  proof -
    from that have "feature_at m p \<in> set (map (feature_at m) (set_cells m ! T))" by simp
    then obtain y where "feature_at m p = Some y" unfolding liveT by auto
    then show ?thesis by (rule feature_at_Some_less)
  qed
  have fresh: "set (set_cells (appended m1 ys S) ! S) \<inter> set (set_cells (appended m1 ys S) ! T) = {}"
    unfolding pT pS using bound by fastforce
  show ?thesis
    using a cS cT pT pS fresh by simp
qed

lemma SequenceFeatureSet_copy_correct:
  assumes T: "contents m T = Some ys"
  shows "\<exists>S m'. SequenceFeatureSet_copy T m = Some (S, m') \<and> S \<noteq> T
           \<and> contents m S = None
           \<and> contents m' S = Some ys \<and> contents m' T = Some ys
           \<and> set_cells m' ! T = set_cells m ! T
           \<and> distinct (set_cells m' ! S)
           \<and> set (set_cells m' ! S) \<inter> set (set_cells m' ! T) = {}"
proof -
  let ?m1 = "m\<lparr>set_cells := set_cells m @ [[]]\<rparr>"
  let ?S = "length (set_cells m)"
  from T have lT: "T < ?S" and liveT: "map (feature_at m) (set_cells m ! T) = map Some ys"
    by (simp_all add: contents_eq)
  have its: "features' ?m1 T = Some (set_cells m ! T)"
    using lT by (simp add: features'_def nth_append)
  have live1: "map (feature_at ?m1) (set_cells m ! T) = map Some ys"
    using liveT by simp
  have cl: "clone_all ?S (set_cells m ! T) ?m1 = Some (appended ?m1 ys ?S)"
    using live1 by (rule clone_all_eq) simp
  have a: "SequenceFeatureSet_copy T m = Some (?S, appended ?m1 ys ?S)"
    using its cl by (simp add: SequenceFeatureSet_copy_def SequenceFeatureSet_init_def)
  have cS: "contents (appended ?m1 ys ?S) ?S = Some ([] @ ys)"
    using contents_init_new by (rule contents_appended_same)
  have cT: "contents (appended ?m1 ys ?S) T = Some ys"
    using contents_init_old[OF T] lT by (intro contents_appended_other) simp_all
  have pT: "set_cells (appended ?m1 ys ?S) ! T = set_cells m ! T"
    using lT by (simp add: appended_def nth_append)
  have pS: "set_cells (appended ?m1 ys ?S) ! ?S
      = [length (feature_cells m) ..< length (feature_cells m) + length ys]"
    by (simp add: appended_def)
  have bound: "p < length (feature_cells m)" if "p \<in> set (set_cells m ! T)" for p
  proof -
    from that have "feature_at m p \<in> set (map (feature_at m) (set_cells m ! T))" by simp
    then obtain y where "feature_at m p = Some y" unfolding liveT by auto
    then show ?thesis by (rule feature_at_Some_less)
  qed
  have fresh: "set (set_cells (appended ?m1 ys ?S) ! ?S)
      \<inter> set (set_cells (appended ?m1 ys ?S) ! T) = {}"
    unfolding pT pS using bound by fastforce
  have new: "contents m ?S = None"
    by (simp add: contents_def features'_def)
  show ?thesis
    using a cS cT pT pS fresh lT new by simp
qed

text \<open>
  C4. After \<^verbatim>\<open>S = T\<close> for two different set objects, \<open>S\<close> has a copy of every element
  of \<open>T\<close> in the order of \<open>T\<close>, in objects of its own (\<open>assign_other\<close>), and so has a
  copy-constructed set (\<open>SequenceFeatureSet_copy_correct\<close>). For \<^verbatim>\<open>S = S\<close> the code
  does something else: \<^verbatim>\<open>clear()\<close> runs before the loop reads \<^verbatim>\<open>sfs.features_\<close>, so every
  element is deleted and none is copied (\<open>assign_self\<close>). Here for the example set of
  three features.
\<close>

theorem self_assignment_empties_the_set:
  "contents example_memory 0 = Some [gene_10_20, exon_22_28, gene_15_25]
   \<and> getNumberOfFeatures example_memory 0 = Some 3
   \<and> (\<exists>m'. assign 0 0 example_memory = Some m'
         \<and> getNumberOfFeatures m' 0 = Some 0 \<and> contents m' 0 = Some [])"
  by (simp add: contents_example_memory assign_def clear_def features'_def example_memory_def
      delete_feature_def feature_at_def getNumberOfFeatures_def contents_def)

section \<open>Independence of copies\<close>

lemma map_Some_less:
  assumes "map (feature_at m) pt = map Some ys" and "p \<in> set pt"
  shows "p < length (feature_cells m)"
proof -
  from assms(2) have "feature_at m p \<in> set (map (feature_at m) pt)" by simp
  then obtain y where "feature_at m p = Some y" unfolding assms(1) by auto
  then show ?thesis by (rule feature_at_Some_less)
qed

lemma apart_contents: "apart m S T pt ys \<Longrightarrow> contents m T = Some ys"
  by (simp add: apart_def contents_def deref_all_eq)

lemma apart_appended:
  assumes "apart m S T pt ys"
  shows "apart (appended m zs S) S T pt ys"
proof -
  from assms obtain ps where ne: "T \<noteq> S" and pt: "features' m T = Some pt"
    and live: "map (feature_at m) pt = map Some ys"
    and ps: "features' m S = Some ps" and sep: "set ps \<inter> set pt = {}"
    unfolding apart_def by blast
  from ps have lS: "S < length (set_cells m)" and ps_eq: "ps = set_cells m ! S"
    by (auto simp: features'_def split: if_splits)
  have "features' (appended m zs S) S
      = Some (ps @ [length (feature_cells m) ..< length (feature_cells m) + length zs])"
    using lS ps_eq by (simp add: features'_appended_same)
  moreover have "set (ps @ [length (feature_cells m) ..< length (feature_cells m) + length zs])
      \<inter> set pt = {}"
    using sep map_Some_less[OF live] by fastforce
  moreover have "features' (appended m zs S) T = Some pt"
    using ne pt by (simp add: features'_appended_other)
  moreover have "map (feature_at (appended m zs S)) pt = map Some ys"
    using live by (rule map_feature_at_appended)
  ultimately show ?thesis
    unfolding apart_def using ne by blast
qed

lemma apart_clear:
  assumes "apart m S T pt ys" and "clear S m = Some m'"
  shows "apart m' S T pt ys"
proof -
  from assms(1) obtain ps where ne: "T \<noteq> S" and pt: "features' m T = Some pt"
    and live: "map (feature_at m) pt = map Some ys"
    and ps: "features' m S = Some ps" and sep: "set ps \<inter> set pt = {}"
    unfolding apart_def by blast
  from clear_SomeD[OF assms(2)] ps have sc: "set_cells m' = (set_cells m)[S := []]"
    and fa: "\<And>p. feature_at m' p = (if p \<in> set ps then None else feature_at m p)"
    by auto
  from ps have lS: "S < length (set_cells m)"
    by (auto simp: features'_def split: if_splits)
  have "features' m' S = Some []"
    using sc lS by (simp add: features'_def)
  moreover have "features' m' T = Some pt"
    using sc ne pt by (auto simp: features'_def split: if_splits)
  moreover have "map (feature_at m') pt = map Some ys"
  proof (rule map_feature_at_cong[OF _ live])
    fix p assume "p \<in> set pt"
    then show "feature_at m' p = feature_at m p"
      using fa[of p] sep by auto
  qed
  ultimately show ?thesis
    unfolding apart_def using ne by simp
qed

lemma apart_assign:
  assumes "apart m S T pt ys" and "assign S U m = Some m'"
  shows "apart m' S T pt ys"
proof -
  from assms(2) obtain m1 its where c: "clear S m = Some m1"
    and cl: "clone_all S its m1 = Some m'"
    by (auto simp: assign_def split: option.splits)
  from clone_all_SomeD[OF cl] obtain zs where "m' = appended m1 zs S" by blast
  then show ?thesis
    using apart_appended[OF apart_clear[OF assms(1) c]] by simp
qed

lemma apart_addFeature:
  assumes "apart m S T pt ys" and "addFeature S F m = Some m'"
  shows "apart m' S T pt ys"
proof -
  from addFeature_SomeD[OF assms(2)] obtain f where "m' = appended m [f] S" by blast
  then show ?thesis
    using apart_appended[OF assms(1)] by simp
qed

lemma modify_feature_SomeD:
  assumes "modify_feature p g m = Some m'"
  shows "\<exists>f. feature_at m p = Some f \<and> set_cells m' = set_cells m
       \<and> (\<forall>q. feature_at m' q = (if q = p then Some (g f) else feature_at m q))"
  using assms
  by (auto simp: modify_feature_def feature_at_def split: option.splits if_splits)

lemma apart_modify:
  assumes "apart m S T pt ys" and "modify_feature p g m = Some m'" and "p \<notin> set pt"
  shows "apart m' S T pt ys"
proof -
  from modify_feature_SomeD[OF assms(2)] have sc: "set_cells m' = set_cells m"
    and fa: "\<And>q. q \<noteq> p \<Longrightarrow> feature_at m' q = feature_at m q"
    by auto
  have f: "features' m' = features' m"
    using sc by (auto simp: features'_def)
  have "map (feature_at m') pt = map Some ys" if "map (feature_at m) pt = map Some ys"
  proof (rule map_feature_at_cong[OF _ that])
    fix q assume "q \<in> set pt"
    then show "feature_at m' q = feature_at m q"
      using fa[of q] assms(3) by auto
  qed
  then show ?thesis
    using assms(1) unfolding apart_def f by blast
qed

lemma apart_mutate:
  assumes "apart m S T pt ys" and "mutate S a m = Some m'" and "\<forall>p\<in>set pt. \<not> modifies a p"
  shows "apart m' S T pt ys"
proof (cases a)
  case (AddFeature F)
  then show ?thesis using assms apart_addFeature by simp
next
  case Clear
  then show ?thesis using assms apart_clear by simp
next
  case (Assign U)
  then show ?thesis using assms apart_assign by simp
next
  case (Modify p g)
  then have "p \<notin> set pt" using assms(3) by auto
  then show ?thesis using Modify assms apart_modify by simp
qed

lemma apart_mutate_all:
  assumes "apart m S T pt ys" and "mutate_all S acts m = Some m'"
    and "\<forall>a\<in>set acts. \<forall>p\<in>set pt. \<not> modifies a p"
  shows "apart m' S T pt ys"
  using assms
proof (induction acts arbitrary: m)
  case Nil
  then show ?case by simp
next
  case (Cons a acts)
  from Cons.prems(2) obtain m1 where a: "mutate S a m = Some m1"
    and r: "mutate_all S acts m1 = Some m'"
    by (cases "mutate S a m") simp_all
  have "apart m1 S T pt ys"
    using Cons.prems(1) a Cons.prems(3) by (intro apart_mutate[of m S T pt ys a m1]) simp_all
  then show ?case
    using r Cons.prems(3) by (intro Cons.IH) simp_all
qed

lemma apart_getSubset:
  assumes "contents m S = Some xs"
  shows "\<exists>T m1 pt. getSubset keep S m = Some (T, m1) \<and> apart m1 S T pt (filter keep xs)"
proof -
  let ?m0 = "m\<lparr>set_cells := set_cells m @ [[]]\<rparr>"
  let ?T = "length (set_cells m)"
  let ?ys = "filter keep xs"
  let ?m1 = "appended ?m0 ?ys ?T"
  let ?pt = "[length (feature_cells m) ..< length (feature_cells m) + length ?ys]"
  from assms have lS: "S < ?T" and live: "map (feature_at m) (set_cells m ! S) = map Some xs"
    by (simp_all add: contents_eq)
  have g: "getSubset keep S m = Some (?T, ?m1)"
    using assms by (rule getSubset_eq)
  have "features' ?m1 ?T = Some ?pt"
    using features'_appended_same[of ?T ?m0 ?ys] by simp
  moreover have "map (feature_at ?m1) ?pt = map Some ?ys"
    using map_feature_at_new[of ?m0 ?ys ?T] by simp
  moreover have "features' ?m1 S = Some (set_cells m ! S)"
    using lS by (simp add: features'_def appended_def nth_append)
  moreover have "set (set_cells m ! S) \<inter> set ?pt = {}"
    using map_Some_less[OF live] by fastforce
  ultimately have "apart ?m1 S ?T ?pt ?ys"
    unfolding apart_def using lS by auto
  with g show ?thesis by blast
qed

lemma modify_feature_Some:
  assumes "feature_at m p = Some f"
  shows "\<exists>m'. modify_feature p g m = Some m' \<and> set_cells m' = set_cells m
       \<and> (\<forall>q. feature_at m' q = (if q = p then Some (g f) else feature_at m q))"
proof -
  from assms obtain m' where m': "modify_feature p g m = Some m'"
    by (simp add: modify_feature_def)
  from modify_feature_SomeD[OF m'] assms m' show ?thesis
    by auto
qed

lemma getFeature_nth:
  "features' m S = Some ps \<Longrightarrow> i < length ps \<Longrightarrow> getFeature m S i = feature_at m (ps ! i)"
  by (simp add: getFeature_def)

lemma addFeature_copy:
  assumes F: "feature_at m F = Some f" and S: "contents m S = Some xs"
  shows "\<exists>m1 q. addFeature S F m = Some m1
          \<and> features' m1 S = Some (set_cells m ! S @ [q]) \<and> q \<noteq> F
          \<and> feature_at m1 q = Some f \<and> feature_at m1 F = Some f
          \<and> getFeature m1 S (length xs) = Some f
          \<and> contents m1 S = Some (xs @ [f])
          \<and> (\<forall>g. \<exists>m2. modify_feature F g m1 = Some m2 \<and> feature_at m2 F = Some (g f)
                 \<and> getFeature m2 S (length xs) = Some f)
          \<and> (\<forall>g. \<exists>m2. modify_feature q g m1 = Some m2 \<and> feature_at m2 F = Some f
                 \<and> getFeature m2 S (length xs) = Some (g f))"
proof -
  let ?q = "length (feature_cells m)"
  let ?m1 = "appended m [f] S"
  from S have lS: "S < length (set_cells m)"
    and live: "map (feature_at m) (set_cells m ! S) = map Some xs"
    by (simp_all add: contents_eq)
  from live have len: "length (set_cells m ! S) = length xs"
    by (metis length_map)
  from F have lF: "F < ?q" by (rule feature_at_Some_less)
  have add: "addFeature S F m = Some ?m1"
    using F lS by (rule addFeature_eq)
  have ps: "features' ?m1 S = Some (set_cells m ! S @ [?q])"
    using lS by (simp add: features'_appended_same)
  have fq: "feature_at ?m1 ?q = Some f"
    using feature_at_appended_new[of 0 "[f]" m S] by simp
  have fF: "feature_at ?m1 F = Some f"
    using F lF by (simp add: feature_at_appended)
  have nth: "(set_cells m ! S @ [?q]) ! length xs = ?q"
    using len by (metis nth_append_length)
  have lt: "length xs < length (set_cells m ! S @ [?q])"
    using len by simp
  have gf: "getFeature m' S (length xs) = feature_at m' ?q"
    if "set_cells m' = set_cells ?m1" for m'
  proof -
    from that ps lS have "features' m' S = Some (set_cells m ! S @ [?q])"
      by (simp add: features'_def)
    from getFeature_nth[OF this lt] nth show ?thesis by simp
  qed
  have cS: "contents ?m1 S = Some (xs @ [f])"
    using S by (rule contents_appended_same)
  have modF: "\<exists>m2. modify_feature F g ?m1 = Some m2 \<and> feature_at m2 F = Some (g f)
                 \<and> getFeature m2 S (length xs) = Some f" for g
  proof -
    from modify_feature_Some[OF fF, of g] obtain m2 where
      "modify_feature F g ?m1 = Some m2" "set_cells m2 = set_cells ?m1"
      "\<And>p. feature_at m2 p = (if p = F then Some (g f) else feature_at ?m1 p)"
      by blast
    then show ?thesis
      using gf[of m2] fq lF by auto
  qed
  have modq: "\<exists>m2. modify_feature ?q g ?m1 = Some m2 \<and> feature_at m2 F = Some f
                 \<and> getFeature m2 S (length xs) = Some (g f)" for g
  proof -
    from modify_feature_Some[OF fq, of g] obtain m2 where
      "modify_feature ?q g ?m1 = Some m2" "set_cells m2 = set_cells ?m1"
      "\<And>p. feature_at m2 p = (if p = ?q then Some (g f) else feature_at ?m1 p)"
      by blast
    then show ?thesis
      using gf[of m2] fF lF by auto
  qed
  have "?q \<noteq> F" using lF by simp
  then show ?thesis
    using add ps fq fF gf[of ?m1] cS modF modq by (intro exI[of _ ?m1] exI[of _ ?q]) simp
qed

text \<open>
  C3. \<^verbatim>\<open>S.addFeature(F)\<close> stores the address of a new object with the value of \<open>F\<close>,
  attribute map included: whatever member function \<open>g\<close> is later called on \<open>F\<close>, the
  stored element reads as before, and whatever is called on the stored element, \<open>F\<close>
  reads as before. The set \<open>T\<close> that a \<^verbatim>\<open>getSubsetFor...\<close> call returns (each of the
  five is \<open>getSubset\<close> with its test) is another object with elements of its own, and
  it keeps its elements through every later run of \<^verbatim>\<open>addFeature\<close>, \<^verbatim>\<open>clear\<close> and
  \<^verbatim>\<open>operator=\<close> on the parent \<open>S\<close> and of member calls on feature objects other than
  its own elements.
\<close>

theorem copies_are_independent:
  assumes F: "feature_at m F = Some f" and S: "contents m S = Some xs"
  shows "(\<exists>m1 q. addFeature S F m = Some m1
          \<and> features' m1 S = Some (set_cells m ! S @ [q]) \<and> q \<noteq> F
          \<and> feature_at m1 q = Some f \<and> feature_at m1 F = Some f
          \<and> getFeature m1 S (length xs) = Some f
          \<and> contents m1 S = Some (xs @ [f])
          \<and> (\<forall>g. \<exists>m2. modify_feature F g m1 = Some m2 \<and> feature_at m2 F = Some (g f)
                 \<and> getFeature m2 S (length xs) = Some f)
          \<and> (\<forall>g. \<exists>m2. modify_feature q g m1 = Some m2 \<and> feature_at m2 F = Some f
                 \<and> getFeature m2 S (length xs) = Some (g f)))
       \<and> (\<exists>T m1 pt. getSubset keep S m = Some (T, m1) \<and> features' m1 T = Some pt
            \<and> contents m1 T = Some (filter keep xs)
            \<and> (\<forall>acts m2. mutate_all S acts m1 = Some m2
                   \<and> (\<forall>a\<in>set acts. \<forall>p\<in>set pt. \<not> modifies a p)
                 \<longrightarrow> features' m2 T = Some pt \<and> contents m2 T = Some (filter keep xs)))"
proof -
  from apart_getSubset[OF S, of keep] obtain T m1 pt
    where g: "getSubset keep S m = Some (T, m1)" and ap: "apart m1 S T pt (filter keep xs)"
    by blast
  have later: "features' m2 T = Some pt \<and> contents m2 T = Some (filter keep xs)"
    if "mutate_all S acts m1 = Some m2" "\<forall>a\<in>set acts. \<forall>p\<in>set pt. \<not> modifies a p"
    for acts m2
  proof -
    from apart_mutate_all[OF ap that] have a2: "apart m2 S T pt (filter keep xs)" .
    then have "features' m2 T = Some pt"
      by (simp add: apart_def)
    moreover have "contents m2 T = Some (filter keep xs)"
      using a2 by (rule apart_contents)
    ultimately show ?thesis by simp
  qed
  have "features' m1 T = Some pt"
    using ap by (simp add: apart_def)
  moreover have "contents m1 T = Some (filter keep xs)"
    using ap by (rule apart_contents)
  moreover note g later
  ultimately have "\<exists>T m1 pt. getSubset keep S m = Some (T, m1) \<and> features' m1 T = Some pt
            \<and> contents m1 T = Some (filter keep xs)
            \<and> (\<forall>acts m2. mutate_all S acts m1 = Some m2
                   \<and> (\<forall>a\<in>set acts. \<forall>p\<in>set pt. \<not> modifies a p)
                 \<longrightarrow> features' m2 T = Some pt \<and> contents m2 T = Some (filter keep xs))"
    by blast
  with addFeature_copy[OF F S] show ?thesis
    by blast
qed

lemma example_types:
  "getType gene_10_20 = ''gene''" "getType exon_22_28 = ''exon''"
  "getType gene_15_25 = ''gene''" "getType site_5_6 = ''site''"
  by (simp_all add: getType_def gene_10_20_def exon_22_28_def gene_15_25_def site_5_6_def
      BasicSequenceFeature_init_def)

lemma getSubsetForType_example:
  "getSubset (\<lambda>f. getType f = ''gene'') 0 example_memory =
     Some (1, \<lparr>feature_cells = [Some gene_10_20, Some exon_22_28, Some gene_15_25,
                  Some site_5_6, Some gene_10_20, Some gene_15_25],
                set_cells = [[0, 1, 2], [4, 5]]\<rparr>)"
  by (simp add: getSubset_def SequenceFeatureSet_init_def example_memory_def features'_def
      feature_at_def addFeature_def clone_def new_feature_def push_back_def example_types)

theorem copies_are_independent_witness:
  "feature_at example_memory 3 = Some site_5_6
   \<and> contents example_memory 0 = Some [gene_10_20, exon_22_28, gene_15_25]
   \<and> (\<exists>m1 m2. addFeature 0 3 example_memory = Some m1
          \<and> modify_feature 3 (setAttribute ''k'' ''v'') m1 = Some m2
          \<and> feature_at m2 3 = Some (setAttribute ''k'' ''v'' site_5_6)
          \<and> getFeature m2 0 3 = Some site_5_6)
   \<and> (\<exists>T m1 m2. getSubsetForType ''gene'' 0 example_memory = Some (T, m1)
          \<and> mutate_all 0 [Modify 0 feature_invert, AddFeature 3, Clear] m1 = Some m2
          \<and> contents m2 0 = Some []
          \<and> contents m2 T = Some [gene_10_20, gene_15_25])"
proof -
  have F: "feature_at example_memory 3 = Some site_5_6"
    by (simp add: feature_at_def example_memory_def)
  note S = contents_example_memory
  note ind = copies_are_independent [OF F S, of "\<lambda>f. getType f = ''gene''"]
  from ind obtain m1 where add: "addFeature 0 3 example_memory = Some m1"
    and mod: "\<forall>g. \<exists>m2. modify_feature 3 g m1 = Some m2 \<and> feature_at m2 3 = Some (g site_5_6)
                 \<and> getFeature m2 0 (length [gene_10_20, exon_22_28, gene_15_25]) = Some site_5_6"
    by blast
  from mod have "\<exists>m2. modify_feature 3 (setAttribute ''k'' ''v'') m1 = Some m2
      \<and> feature_at m2 3 = Some (setAttribute ''k'' ''v'' site_5_6)
      \<and> getFeature m2 0 (length [gene_10_20, exon_22_28, gene_15_25]) = Some site_5_6"
    by (rule spec)
  then obtain m2 where "modify_feature 3 (setAttribute ''k'' ''v'') m1 = Some m2"
    "feature_at m2 3 = Some (setAttribute ''k'' ''v'' site_5_6)"
    "getFeature m2 0 3 = Some site_5_6"
    by (auto simp: numeral_3_eq_3)
  with add have first: "\<exists>m1 m2. addFeature 0 3 example_memory = Some m1
          \<and> modify_feature 3 (setAttribute ''k'' ''v'') m1 = Some m2
          \<and> feature_at m2 3 = Some (setAttribute ''k'' ''v'' site_5_6)
          \<and> getFeature m2 0 3 = Some site_5_6"
    by blast
  let ?M = "\<lparr>feature_cells = [Some gene_10_20, Some exon_22_28, Some gene_15_25,
                  Some site_5_6, Some gene_10_20, Some gene_15_25],
                set_cells = [[0, 1, 2], [4, 5]]\<rparr>"
  from ind obtain T M pt
    where sub: "getSubset (\<lambda>f. getType f = ''gene'') 0 example_memory = Some (T, M)"
      and pt: "features' M T = Some pt"
      and later: "\<forall>acts m2. mutate_all 0 acts M = Some m2
                   \<and> (\<forall>a\<in>set acts. \<forall>p\<in>set pt. \<not> modifies a p)
                 \<longrightarrow> features' m2 T = Some pt
                   \<and> contents m2 T
                       = Some (filter (\<lambda>f. getType f = ''gene'')
                                 [gene_10_20, exon_22_28, gene_15_25])"
    by blast
  from sub have T: "T = 1" and M: "M = ?M"
    unfolding getSubsetForType_example by auto
  from pt have pt_eq: "pt = [4, 5]"
    unfolding T M by (simp add: features'_def)
  obtain m3 where run: "mutate_all 0 [Modify 0 feature_invert, AddFeature 3, Clear] M = Some m3"
    and empty: "contents m3 0 = Some []"
    unfolding M
    by (simp add: modify_feature_def feature_at_def addFeature_def clone_def new_feature_def
        push_back_def clear_def features'_def delete_feature_def contents_def)
  have nomod: "\<forall>a\<in>set [Modify 0 feature_invert, AddFeature 3, Clear].
      \<forall>p\<in>set pt. \<not> modifies a p"
    unfolding pt_eq by simp
  have filt: "filter (\<lambda>f. getType f = ''gene'') [gene_10_20, exon_22_28, gene_15_25]
      = [gene_10_20, gene_15_25]"
    by (simp add: example_types)
  from later run nomod have "contents m3 T
      = Some (filter (\<lambda>f. getType f = ''gene'') [gene_10_20, exon_22_28, gene_15_25])"
    by blast
  then have "contents m3 T = Some [gene_10_20, gene_15_25]"
    unfolding filt .
  with sub run empty have "\<exists>T m1 m2. getSubsetForType ''gene'' 0 example_memory = Some (T, m1)
          \<and> mutate_all 0 [Modify 0 feature_invert, AddFeature 3, Clear] m1 = Some m2
          \<and> contents m2 0 = Some []
          \<and> contents m2 T = Some [gene_10_20, gene_15_25]"
    unfolding getSubsetForType_def by blast
  with F S first show ?thesis
    by simp
qed

end
